theory Spec2Isabelle
  imports Complex_Main
begin

section \<open>Conventions of the embedding\<close>

text \<open>
  The Python sources \<^verbatim>\<open>lib/levenshtein.py\<close> and \<^verbatim>\<open>lib/bm25.py\<close> are embedded as HOL
  functions. A Python \<^verbatim>\<open>str\<close> is a \<open>string\<close>, one \<open>char\<close> per code point; the edit
  distance is written for lists over any alphabet. Python integers that count or
  index (lengths, loop counters, matrix cells) are \<open>nat\<close>, the optional \<^verbatim>\<open>top_k\<close> is
  an \<open>int option\<close>. Python floats are idealised as \<open>real\<close>: rounding is not modelled.
  A run-time error of the interpreter is a value \<open>Inl e\<close> of the result type; list
  reads and writes and divisions are checked where the source performs them. The one
  place left unchecked is the bigram loop of \<^verbatim>\<open>_preprocess_text\<close>, which reads
  \<^verbatim>\<open>tokens[i]\<close> and \<^verbatim>\<open>tokens[i+1]\<close> for \<^verbatim>\<open>i\<close> in \<^verbatim>\<open>range(len(tokens) - 1)\<close> only.
\<close>

datatype py_error = ZeroDivisionError | IndexError | ValueError

definition py_bind :: "py_error + 'a \<Rightarrow> ('a \<Rightarrow> py_error + 'b) \<Rightarrow> py_error + 'b" where
  "py_bind m f = (case m of Inl e \<Rightarrow> Inl e | Inr v \<Rightarrow> f v)"

definition get_item :: "'a list \<Rightarrow> nat \<Rightarrow> py_error + 'a" where
  "get_item xs i = (if i < length xs then Inr (xs ! i) else Inl IndexError)"

definition set_item :: "'a list \<Rightarrow> nat \<Rightarrow> 'a \<Rightarrow> py_error + 'a list" where
  "set_item xs i v = (if i < length xs then Inr (xs[i := v]) else Inl IndexError)"

definition py_div :: "real \<Rightarrow> real \<Rightarrow> py_error + real" where
  "py_div x y = (if y = 0 then Inl ZeroDivisionError else Inr (x / y))"

text \<open>A \<^verbatim>\<open>for x in xs:\<close> loop whose body updates a state and may raise.\<close>

fun for_loop :: "'x list \<Rightarrow> ('s \<Rightarrow> 'x \<Rightarrow> py_error + 's) \<Rightarrow> 's \<Rightarrow> py_error + 's" where
  "for_loop [] body s = Inr s"
| "for_loop (x # xs) body s =
     (case body s x of Inl e \<Rightarrow> Inl e | Inr s' \<Rightarrow> for_loop xs body s')"

section \<open>Edit-distance engine (\<^verbatim>\<open>lib/levenshtein.py\<close>)\<close>

text \<open>
  The body of the inner loop of \<^verbatim>\<open>levenshtein_distance\<close>: cell \<open>j\<close> of the current row
  from the previous row, the cell to its left and the two characters.
\<close>

definition dp_cell ::
  "'a list \<Rightarrow> 'a list \<Rightarrow> nat \<Rightarrow> nat list \<Rightarrow> nat list \<Rightarrow> nat \<Rightarrow> py_error + nat list" where
  "dp_cell s1 s2 i previous_row current_row j =
     py_bind (get_item previous_row j) (\<lambda>pj.
     py_bind (get_item current_row (j - 1)) (\<lambda>cj1.
     py_bind (get_item previous_row (j - 1)) (\<lambda>pj1.
     py_bind (get_item s1 (i - 1)) (\<lambda>a.
     py_bind (get_item s2 (j - 1)) (\<lambda>b.
       let deletion = pj + 1;
           insertion = cj1 + 1;
           substitution = pj1 + (if a = b then 0 else 1)
       in set_item current_row j (min deletion (min insertion substitution)))))))"

text \<open>
  The body of the outer loop: write \<open>i\<close> into cell 0, fill the row for
  \<open>j = 1 .. len(s2)\<close>, then swap the two rows.
\<close>

definition row_step ::
  "'a list \<Rightarrow> 'a list \<Rightarrow> nat list \<times> nat list \<Rightarrow> nat \<Rightarrow> py_error + nat list \<times> nat list" where
  "row_step s1 s2 rows i =
     (case rows of (previous_row, current_row) \<Rightarrow>
       py_bind (set_item current_row 0 i) (\<lambda>current_row.
       py_bind (for_loop [1..<length s2 + 1] (dp_cell s1 s2 i previous_row) current_row)
         (\<lambda>current_row. Inr (current_row, previous_row))))"

definition levenshtein_distance :: "'a list \<Rightarrow> 'a list \<Rightarrow> py_error + nat" where
  "levenshtein_distance s1 s2 =
     (if s1 = s2 then Inr 0
      else if length s1 = 0 then Inr (length s2)
      else if length s2 = 0 then Inr (length s1)
      else
        py_bind (for_loop [1..<length s1 + 1] (row_step s1 s2)
                   ([0..<length s2 + 1], replicate (length s2 + 1) 0))
          (\<lambda>rows. case rows of (previous_row, current_row) \<Rightarrow>
             get_item previous_row (length s2)))"

definition levenshtein_ratio :: "'a list \<Rightarrow> 'a list \<Rightarrow> py_error + real" where
  "levenshtein_ratio s1 s2 =
     py_bind (levenshtein_distance s1 s2) (\<lambda>distance.
       let max_len = max (length s1) (length s2)
       in if max_len = 0 then Inr 1
          else Inr (1 - real distance / real max_len))"

text \<open>
  The edit distance between the prefixes of length \<open>i\<close> and \<open>j\<close>, by the textbook
  recurrence on insertion, deletion and substitution of one character. It is the
  specification that the two-row loop is compared with.
\<close>

fun lev :: "'a list \<Rightarrow> 'a list \<Rightarrow> nat \<Rightarrow> nat \<Rightarrow> nat" where
  "lev s t 0 j = j"
| "lev s t (Suc i) 0 = Suc i"
| "lev s t (Suc i) (Suc j) =
     min (lev s t i (Suc j) + 1)
       (min (lev s t (Suc i) j + 1) (lev s t i j + (if s ! i = t ! j then 0 else 1)))"


section \<open>Alignment matcher and grounded-response builder (\<^verbatim>\<open>lib/levenshtein.py\<close>)\<close>

text \<open>
  Library functions that the sources call and that are not part of the repository
  (\<^verbatim>\<open>re\<close>, \<^verbatim>\<open>str.lower\<close>, NLTK's tokenizers, stop-word list and Snowball stemmer) are
  fields of a record that every operation takes as its first argument, so each
  result below holds whatever these functions compute. They are taken to return a
  value for every input:
  \<^item> \<open>normalise\<close>: \<^verbatim>\<open>re.sub(r'[^\w\s]', ' ', re.sub(r'\s+', ' ', text.lower()))\<close>,
    steps 1 and 2 of \<^verbatim>\<open>_preprocess_text\<close>;
  \<^item> \<open>word_tokenize\<close>: \<^verbatim>\<open>nltk.tokenize.word_tokenize(text, language='french')\<close>;
  \<^item> \<open>stop_words\<close>: \<^verbatim>\<open>set(stopwords.words('french'))\<close>;
  \<^item> \<open>stem\<close>: \<^verbatim>\<open>SnowballStemmer('french').stem\<close>;
  \<^item> \<open>clean_text\<close>: the function \<^verbatim>\<open>clean_text\<close> of \<^verbatim>\<open>lib/levenshtein.py\<close>, a chain of
    \<^verbatim>\<open>str.replace\<close>, \<^verbatim>\<open>re.sub\<close> and \<^verbatim>\<open>str.strip\<close> calls that maps a string to a string;
  \<^item> \<open>sent_tokenize\<close>: the \<^verbatim>\<open>try\<close> block of \<^verbatim>\<open>align_response\<close> (import, download and
    \<^verbatim>\<open>sent_tokenize(response)\<close>), \<open>None\<close> when it raises and the \<^verbatim>\<open>except\<close> branch runs.
\<close>

record text_lib =
  normalise :: "string \<Rightarrow> string"
  word_tokenize :: "string \<Rightarrow> string list"
  stop_words :: "string set"
  stem :: "string \<Rightarrow> string"
  clean_text :: "string \<Rightarrow> string"
  sent_tokenize :: "string \<Rightarrow> string list option"

text \<open>The dictionary that \<^verbatim>\<open>align_response\<close> builds for one generated sentence.\<close>

record alignment =
  generated :: string
  source :: "string option"
  similarity :: real
  aligned :: bool

text \<open>A list comprehension \<^verbatim>\<open>[f(x) for x in xs]\<close> whose element expression may raise.\<close>

fun map_err :: "('a \<Rightarrow> py_error + 'b) \<Rightarrow> 'a list \<Rightarrow> py_error + 'b list" where
  "map_err f [] = Inr []"
| "map_err f (x # xs) =
     (case f x of Inl e \<Rightarrow> Inl e
      | Inr y \<Rightarrow> (case map_err f xs of Inl e \<Rightarrow> Inl e | Inr ys \<Rightarrow> Inr (y # ys)))"

text \<open>
  \<^verbatim>\<open>numpy.argmax\<close>: the index of the first occurrence of the maximum; \<^verbatim>\<open>ValueError\<close> on
  an empty sequence.
\<close>

fun argmax_from :: "real list \<Rightarrow> nat \<Rightarrow> nat \<Rightarrow> real \<Rightarrow> nat" where
  "argmax_from [] i best_i best = best_i"
| "argmax_from (x # xs) i best_i best =
     (if best < x then argmax_from xs (Suc i) i x else argmax_from xs (Suc i) best_i best)"

definition argmax :: "real list \<Rightarrow> py_error + nat" where
  "argmax xs = (case xs of [] \<Rightarrow> Inl ValueError | x # rest \<Rightarrow> Inr (argmax_from rest 1 0 x))"

definition find_closest_text :: "string \<Rightarrow> string list \<Rightarrow> real \<Rightarrow> py_error + int \<times> real" where
  "find_closest_text text candidates threshold =
     (if candidates = [] then Inr (- 1, 0)
      else
        py_bind (map_err (levenshtein_ratio text) candidates) (\<lambda>scores.
        py_bind (argmax scores) (\<lambda>max_score_idx.
        py_bind (get_item scores max_score_idx) (\<lambda>max_score.
          if max_score \<ge> threshold then Inr (int max_score_idx, max_score)
          else Inr (- 1, max_score)))))"

text \<open>
  The body of the second scan of \<^verbatim>\<open>align_response\<close> over
  \<^verbatim>\<open>enumerate(source_sentences)\<close>; the state is \<open>(best_idx, best_score)\<close>.
\<close>

definition best_step :: "string \<Rightarrow> int \<times> real \<Rightarrow> nat \<times> string \<Rightarrow> py_error + int \<times> real" where
  "best_step resp_sent best p =
     (case best of (best_idx, best_score) \<Rightarrow>
      case p of (i, src) \<Rightarrow>
        py_bind (levenshtein_ratio resp_sent src) (\<lambda>current_score.
          if current_score > best_score then Inr (int i, current_score)
          else Inr (best_idx, best_score)))"

text \<open>The body of the loop over the generated sentences: the record of one sentence.\<close>

definition align_sentence :: "string list \<Rightarrow> real \<Rightarrow> string \<Rightarrow> py_error + alignment" where
  "align_sentence source_sentences threshold resp_sent =
     py_bind (find_closest_text resp_sent source_sentences threshold) (\<lambda>found.
       case found of (idx, score) \<Rightarrow>
         if idx \<ge> 0 then
           py_bind (get_item source_sentences (nat idx)) (\<lambda>src.
             Inr \<lparr>generated = resp_sent, source = Some src, similarity = score,
                  aligned = True\<rparr>)
         else
           py_bind (for_loop (enumerate 0 source_sentences) (best_step resp_sent) (- 1, 0))
             (\<lambda>best. case best of (best_idx, best_score) \<Rightarrow>
                if best_idx \<ge> 0 \<and> best_score \<ge> 0.4 then
                  py_bind (get_item source_sentences (nat best_idx)) (\<lambda>src.
                    Inr \<lparr>generated = resp_sent, source = Some src, similarity = best_score,
                         aligned = False\<rparr>)
                else
                  Inr \<lparr>generated = resp_sent, source = None,
                       similarity = (if best_idx \<ge> 0 then best_score else 0),
                       aligned = False\<rparr>))"

text \<open>
  \<^verbatim>\<open>str.isspace\<close> on the code points below 256, \<^verbatim>\<open>str.strip()\<close> and \<^verbatim>\<open>str.split(sep)\<close>
  for a separator of one character.
\<close>

definition py_isspace :: "char \<Rightarrow> bool" where
  "py_isspace c = (of_char c \<in> set ([9, 10, 11, 12, 13, 28, 29, 30, 31, 32, 133, 160] :: nat list))"

definition strip :: "string \<Rightarrow> string" where
  "strip s = rev (dropWhile py_isspace (rev (dropWhile py_isspace s)))"

fun split_on :: "char \<Rightarrow> string \<Rightarrow> string list" where
  "split_on sep [] = [[]]"
| "split_on sep (c # cs) =
     (if c = sep then [] # split_on sep cs
      else (case split_on sep cs of [] \<Rightarrow> [[c]] | w # ws \<Rightarrow> (c # w) # ws))"

definition align_response ::
  "text_lib \<Rightarrow> string \<Rightarrow> string list \<Rightarrow> real \<Rightarrow> py_error + alignment list" where
  "align_response lib response source_sentences threshold =
     (if response = [] \<or> source_sentences = [] then Inr []
      else
        let response = clean_text lib response;
            response_sentences =
              (case sent_tokenize lib response of
                 Some sentences \<Rightarrow> sentences
               | None \<Rightarrow> [strip s. s \<leftarrow> split_on CHR ''.'' response, length (strip s) > 10]);
            response_sentences = [strip s. s \<leftarrow> response_sentences, length (strip s) > 10]
        in for_loop response_sentences
             (\<lambda>results resp_sent.
                py_bind (align_sentence source_sentences threshold resp_sent)
                  (\<lambda>r. Inr (results @ [r])))
             [])"

text \<open>
  Python truth of \<^verbatim>\<open>result['source']\<close>: \<^verbatim>\<open>None\<close> and the empty string are false.
  \<^verbatim>\<open>list.sort(key=..., reverse=True)\<close> is stable: elements with equal keys keep their
  order. \<^verbatim>\<open>sep.join(parts)\<close> puts the separator between the parts.
\<close>

definition truthy :: "string option \<Rightarrow> bool" where
  "truthy src = (case src of None \<Rightarrow> False | Some s \<Rightarrow> s \<noteq> [])"

definition sort_reverse :: "('a \<Rightarrow> real) \<Rightarrow> 'a list \<Rightarrow> 'a list" where
  "sort_reverse key xs = rev (sort_key key (rev xs))"

fun join :: "string \<Rightarrow> string list \<Rightarrow> string" where
  "join sep [] = []"
| "join sep [x] = x"
| "join sep (x # y # ys) = x @ sep @ join sep (y # ys)"

definition refusal :: string where
  "refusal = ''Impossible de r'' @ [CHR 0xE9] @ ''pondre '' @ [CHR 0xE0] @
     '' cette question en se basant uniquement sur le document fourni.''"

text \<open>The first comprehension of \<^verbatim>\<open>build_factual_response\<close>.\<close>

definition aligned_sources :: "alignment list \<Rightarrow> string list" where
  "aligned_sources alignment_results =
     List.map_filter (\<lambda>r. if aligned r \<and> truthy (source r) then source r else None)
       alignment_results"

text \<open>The loop that collects \<open>best_matches\<close>, as pairs of source and similarity.\<close>

definition best_match_step :: "(string \<times> real) list \<Rightarrow> alignment \<Rightarrow> (string \<times> real) list" where
  "best_match_step best_matches r =
     (case source r of
        None \<Rightarrow> best_matches
      | Some s \<Rightarrow>
          if s \<noteq> [] \<and> similarity r \<ge> 0.3 then best_matches @ [(s, similarity r)]
          else best_matches)"

text \<open>
  The block under \<^verbatim>\<open>if not aligned_parts:\<close>: the fallback value of \<open>aligned_parts\<close>.
\<close>

definition fallback_sources :: "alignment list \<Rightarrow> string list" where
  "fallback_sources alignment_results =
     (let best_matches = foldl best_match_step [] alignment_results;
          best_matches = sort_reverse snd best_matches
      in map fst (take 5 best_matches))"

text \<open>The value of \<open>aligned_parts\<close> when \<^verbatim>\<open>build_factual_response\<close> reaches its last test.\<close>

definition selected_parts :: "alignment list \<Rightarrow> string list" where
  "selected_parts alignment_results =
     (let aligned_parts = aligned_sources alignment_results
      in if aligned_parts = [] then fallback_sources alignment_results else aligned_parts)"

definition build_factual_response :: "alignment list \<Rightarrow> string" where
  "build_factual_response alignment_results =
     (let aligned_parts = selected_parts alignment_results
      in if aligned_parts = [] then refusal
         else join ''. '' aligned_parts @ ''.'')"

section \<open>BM25+ ranker (\<^verbatim>\<open>lib/bm25.py\<close>)\<close>

text \<open>
  The attributes of a \<^verbatim>\<open>BM25Ranker\<close> instance that its methods read or write. The
  attribute \<^verbatim>\<open>b\<close> is the field \<open>b_len\<close>; the stemmer and the stop words are in the
  \<open>text_lib\<close> record, and \<^verbatim>\<open>domain_terms\<close> is the constant table below.
\<close>

record bm25_ranker =
  k1 :: real
  b_len :: real
  delta :: real
  doc_freqs :: "string \<rightharpoonup> nat"
  idf :: "string \<rightharpoonup> real"
  doc_lens :: "nat list"
  avg_doc_len :: real
  total_docs :: nat
  corpus_terms :: "string set"

text \<open>\<^verbatim>\<open>BM25Ranker(k1, b, delta)\<close>; the defaults are \<^verbatim>\<open>k1=1.5, b=0.75, delta=1.0\<close>.\<close>

definition BM25Ranker :: "real \<Rightarrow> real \<Rightarrow> real \<Rightarrow> bm25_ranker" where
  "BM25Ranker k1_arg b_arg delta_arg =
     \<lparr>k1 = k1_arg, b_len = b_arg, delta = delta_arg, doc_freqs = Map.empty, idf = Map.empty,
      doc_lens = [], avg_doc_len = 0, total_docs = 0, corpus_terms = {}\<rparr>"

definition default_ranker :: bm25_ranker where
  "default_ranker = BM25Ranker 1.5 0.75 1"

definition e_acute :: string where "e_acute = [CHR 0xE9]"
definition e_grave :: string where "e_grave = [CHR 0xE8]"
definition e_circ :: string where "e_circ = [CHR 0xEA]"

definition domain_terms :: "(string \<times> real) list" where
  "domain_terms =
     [(''dur'' @ e_acute @ ''e'', 3.0), (''conservation'', 3.0), (''d'' @ e_acute @ ''lai'', 3.0),
      (''stockage'', 2.5), (''archivage'', 2.5), (''effacement'', 3.0), (''suppression'', 2.5),
      (''r'' @ e_acute @ ''tention'', 3.0), (''temporaire'', 2.0), (''permanent'', 2.0),
      (''p'' @ e_acute @ ''riode'', 2.0), (''temps'', 2.0), (''limit'' @ e_acute, 2.0),
      (''illimit'' @ e_acute, 2.0), (''ans'', 2.5), (''mois'', 2.5), (''jours'', 2.5),
      (''rgpd'', 2.0), (''gdpr'', 2.0), (''r'' @ e_grave @ ''glement'', 1.5),
      (''protection'', 1.5), (''donn'' @ e_acute @ ''e'', 2.0), (''personnelle'', 2.0),
      (''r'' @ e_acute @ ''gulation'', 1.5), (''loi'', 1.5), (''article'', 1.5),
      (''paragraphe'', 1.2), (''alin'' @ e_acute @ ''a'', 1.2), (''disposition'', 1.2),
      (''minimisation'', 2.0), (''finalit'' @ e_acute, 2.0), (''limitation'', 2.5),
      (''proportionnalit'' @ e_acute, 2.0), (''n'' @ e_acute @ ''cessaire'', 2.0),
      (''pertinent'', 1.5), (''ad'' @ e_acute @ ''quat'', 1.5), (''exactitude'', 1.5),
      (''responsable'', 1.5), (''traitement'', 1.5), (''obligation'', 1.5),
      (''conformit'' @ e_acute, 1.5), (''registre'', 2.0), (''documentation'', 1.5),
      (''mesure'', 1.5), (''technique'', 1.0), (''organisationnel'', 1.0),
      (''s'' @ e_acute @ ''curit'' @ e_acute, 1.0), (''archive'', 2.0), (''statistique'', 1.5),
      (''recherche'', 1.5), (''historique'', 1.5), (''scientifique'', 1.5),
      (''int'' @ e_acute @ ''r'' @ e_circ @ ''t'', 1.5), (''public'', 1.5),
      (''l'' @ e_acute @ ''gal'', 1.5)]"

definition expansion_map :: "(string \<times> string list) list" where
  "expansion_map =
     [(''dur'' @ e_acute @ ''e'', [''temps'', ''p'' @ e_acute @ ''riode'', ''d'' @ e_acute @ ''lai'']),
      (''conservation'', [''stockage'', ''r'' @ e_acute @ ''tention'', ''archivage'']),
      (''effacement'', [''suppression'', ''destruction'', e_acute @ ''limination'']),
      (''rgpd'', [''gdpr'', ''r'' @ e_grave @ ''glement'', ''protection'']),
      (''limitation'', [''restriction'', ''bornage'', ''plafonnement''])]"

text \<open>
  \<^verbatim>\<open>str.isdigit\<close> on the code points below 256 (the ASCII digits and the superscripts
  one, two and three) and the characters of \<^verbatim>\<open>string.punctuation\<close>.
\<close>

definition isdigit :: "string \<Rightarrow> bool" where
  "isdigit s = (s \<noteq> [] \<and>
     list_all (\<lambda>c. of_char c \<in> set ([48..<58] @ [178, 179, 185] :: nat list)) s)"

definition punctuation :: "nat list" where
  "punctuation = [33..<48] @ [58..<65] @ [91..<97] @ [123..<127]"

definition preprocess_text :: "text_lib \<Rightarrow> string \<Rightarrow> bool \<Rightarrow> string list" where
  "preprocess_text lib text use_stemming =
     (let text = normalise lib text;
          tokens = word_tokenize lib text;
          tokens = filter (\<lambda>token.
                     token \<notin> stop_words lib \<and> length token > 1 \<and> \<not> isdigit token \<and>
                     \<not> list_all (\<lambda>c. of_char c \<in> set punctuation) token) tokens;
          tokens = (if use_stemming then map (stem lib) tokens else tokens);
          bigrams = map (\<lambda>i. tokens ! i @ ''_'' @ tokens ! (i + 1)) [0..<length tokens - 1]
      in tokens @ bigrams)"

text \<open>
  \<^verbatim>\<open>_calculate_idf\<close>: every term of \<^verbatim>\<open>corpus_terms\<close> gets a new entry of the table, the
  other entries stay. \<^verbatim>\<open>math.log\<close> is \<open>ln\<close>: its argument is at least 1 in the only place
  where the method is called, the end of \<^verbatim>\<open>fit\<close> (lemma \<open>fit_idf_arg_ge_one\<close>), so the
  \<^verbatim>\<open>ValueError\<close> of \<^verbatim>\<open>math.log\<close> on a non-positive argument cannot occur.
\<close>

definition idf_arg :: "bm25_ranker \<Rightarrow> string \<Rightarrow> real" where
  "idf_arg self term =
     (let doc_freq = (case doc_freqs self term of None \<Rightarrow> 0 | Some n \<Rightarrow> n)
      in (real (total_docs self) - real doc_freq + 0.5) / (real doc_freq + 0.5) + 1.0)"

definition idf_value :: "bm25_ranker \<Rightarrow> string \<Rightarrow> real" where
  "idf_value self term =
     (case map_of domain_terms term of
        None \<Rightarrow> ln (idf_arg self term)
      | Some w \<Rightarrow> ln (idf_arg self term) * w)"

definition calculate_idf :: "bm25_ranker \<Rightarrow> bm25_ranker" where
  "calculate_idf self =
     self\<lparr>idf := (\<lambda>term. if term \<in> corpus_terms self then Some (idf_value self term)
                          else idf self term)\<rparr>"

text \<open>The body of the loop over the query terms in \<^verbatim>\<open>_calculate_page_score\<close>.\<close>

definition score_term ::
  "bm25_ranker \<Rightarrow> string list \<Rightarrow> string list \<Rightarrow> real \<Rightarrow> real \<Rightarrow> string \<Rightarrow> py_error + real" where
  "score_term self page_terms query_terms norm_doc_len score term =
     (case idf self term of
        None \<Rightarrow> Inr score
      | Some idf_t \<Rightarrow>
          let tf = real (count_list page_terms term)
          in py_bind (py_div (tf * (k1 self + 1))
                        (tf + k1 self * (1 - b_len self + b_len self * norm_doc_len)))
               (\<lambda>q. let term_score = idf_t * (q + delta self);
                         term_score = (if term \<in> set query_terms then term_score * 1.2
                                       else term_score)
                     in Inr (score + term_score)))"

definition calculate_page_score ::
  "bm25_ranker \<Rightarrow> string list \<Rightarrow> string list \<Rightarrow> nat \<Rightarrow> py_error + real" where
  "calculate_page_score self page_terms query_terms page_index =
     py_bind (get_item (doc_lens self) page_index) (\<lambda>doc_len.
     py_bind (py_div (real doc_len) (avg_doc_len self)) (\<lambda>norm_doc_len.
       for_loop query_terms (score_term self page_terms query_terms norm_doc_len) 0))"

text \<open>\<^verbatim>\<open>_expand_query\<close>: the inner loop over the items of the expansion table.\<close>

definition expand_term :: "text_lib \<Rightarrow> string \<Rightarrow> string list \<Rightarrow> string list" where
  "expand_term lib term expanded_terms =
     (let term_stem = (if term \<in> fst ` set domain_terms then stem lib term else term)
      in foldl (\<lambda>expanded item.
                  case item of (key, expansions) \<Rightarrow>
                    if term = key \<or> term_stem = stem lib key then expanded @ expansions
                    else expanded)
           expanded_terms expansion_map)"

definition expand_query :: "text_lib \<Rightarrow> string list \<Rightarrow> string list" where
  "expand_query lib query_terms =
     foldl (\<lambda>expanded_terms term. expand_term lib term expanded_terms) query_terms query_terms"

text \<open>
  \<^verbatim>\<open>fit\<close>: the body of the loop over the pages, on the local variables
  \<open>(tokenized_pages, doc_lens, term_doc_freqs)\<close> and the attribute \<^verbatim>\<open>corpus_terms\<close>, which
  the method does not reset.
\<close>

definition fit_page ::
  "text_lib \<Rightarrow> string list list \<times> nat list \<times> (string \<rightharpoonup> nat) \<times> string set \<Rightarrow> string \<Rightarrow>
   string list list \<times> nat list \<times> (string \<rightharpoonup> nat) \<times> string set" where
  "fit_page lib acc page =
     (case acc of (tokenized_pages, lens, term_doc_freqs, terms) \<Rightarrow>
        let page_terms = preprocess_text lib page True;
            unique_terms = set page_terms
        in (tokenized_pages @ [page_terms],
            lens @ [length page_terms],
            (\<lambda>term. if term \<in> unique_terms
                     then Some ((case term_doc_freqs term of None \<Rightarrow> 0 | Some n \<Rightarrow> n) + 1)
                     else term_doc_freqs term),
            terms \<union> unique_terms))"

definition fit :: "text_lib \<Rightarrow> bm25_ranker \<Rightarrow> string list \<Rightarrow> string list list \<times> bm25_ranker" where
  "fit lib self pages =
     (case foldl (fit_page lib) ([], [], Map.empty, corpus_terms self) pages of
        (tokenized_pages, lens, term_doc_freqs, terms) \<Rightarrow>
          (tokenized_pages,
           calculate_idf
             (self\<lparr>total_docs := length pages,
                   doc_lens := lens,
                   corpus_terms := terms,
                   avg_doc_len := real (sum_list lens) / real (max 1 (length pages)),
                   doc_freqs := term_doc_freqs\<rparr>)))"

text \<open>
  \<^verbatim>\<open>numpy.argsort\<close>: the indices in ascending order of the values (here with equal
  values in index order; no result below depends on the order among equal values).
  \<^verbatim>\<open>xs[:k]\<close> for an integer \<open>k\<close>, which counts from the end when negative.
\<close>

definition argsort :: "real list \<Rightarrow> nat list" where
  "argsort scores = sort_key (\<lambda>i. scores ! i) [0..<length scores]"

definition py_prefix :: "'a list \<Rightarrow> int \<Rightarrow> 'a list" where
  "py_prefix xs k = (if k \<ge> 0 then take (nat k) xs else take (nat (int (length xs) + k)) xs)"

definition score_pages ::
  "bm25_ranker \<Rightarrow> string list \<Rightarrow> string list list \<Rightarrow> py_error + real list" where
  "score_pages self query_terms tokenized_pages =
     for_loop (enumerate 0 tokenized_pages)
       (\<lambda>scores p. case p of (i, page_terms) \<Rightarrow>
          py_bind (calculate_page_score self page_terms query_terms i)
            (\<lambda>score. Inr (scores @ [score])))
       []"

definition keep_above :: "real list \<Rightarrow> real \<Rightarrow> nat list \<Rightarrow> py_error + nat list" where
  "keep_above scores threshold ranked_indices =
     for_loop ranked_indices
       (\<lambda>kept idx. py_bind (get_item scores idx)
          (\<lambda>s. Inr (if s > threshold then kept @ [idx] else kept)))
       []"

text \<open>
  \<^verbatim>\<open>rank_pages\<close> returns the value or the error raised, and the instance as the call
  leaves it.
\<close>

definition rank_pages ::
  "text_lib \<Rightarrow> bm25_ranker \<Rightarrow> string list \<Rightarrow> string \<Rightarrow> int option \<Rightarrow>
   (py_error + nat list) \<times> bm25_ranker" where
  "rank_pages lib self pages query top_k =
     (if pages = [] then (Inr [], self)
      else
        case fit lib self pages of (tokenized_pages, self) \<Rightarrow>
          let query_terms = preprocess_text lib query True;
              expanded_query_terms = expand_query lib query_terms
          in (py_bind (score_pages self expanded_query_terms tokenized_pages) (\<lambda>scores.
                let ranked_indices = rev (argsort scores);
                    threshold = (if scores \<noteq> [] then Max (set scores) * 0.1 else 0)
                in py_bind (keep_above scores threshold ranked_indices) (\<lambda>ranked_indices.
                     case top_k of
                       None \<Rightarrow> Inr ranked_indices
                     | Some k \<Rightarrow>
                         if k < int (length ranked_indices) then Inr (py_prefix ranked_indices k)
                         else Inr ranked_indices)),
              self))"

text \<open>
  The page selection of \<^verbatim>\<open>VeritasCrewBuilder.build\<close> (\<^verbatim>\<open>lib/agents.py\<close>): the value of
  \<^verbatim>\<open>top_pages_indices\<close> for the configured \<^verbatim>\<open>BM25_TOP_K\<close>.
\<close>

definition top_pages_indices ::
  "text_lib \<Rightarrow> bm25_ranker \<Rightarrow> string list \<Rightarrow> string \<Rightarrow> int \<Rightarrow>
   (py_error + nat list) \<times> bm25_ranker" where
  "top_pages_indices lib self pages search_query bm25_top_k =
     (if int (length pages) \<le> bm25_top_k then (Inr [0..<length pages], self)
      else rank_pages lib self pages search_query (Some bm25_top_k))"

section \<open>Notions used to state the claims\<close>

text \<open>
  A small instance of the library record, for evaluating the model on concrete inputs:
  words are separated by single spaces, there are no stop words, and normalisation,
  stemming and cleaning change nothing. It is used on lower-case words without
  accents only.
\<close>

definition plain_lib :: text_lib where
  "plain_lib =
     \<lparr>normalise = (\<lambda>s. s),
      word_tokenize = (\<lambda>s. filter (\<lambda>w. w \<noteq> []) (split_on CHR '' '' s)),
      stop_words = {},
      stem = (\<lambda>s. s),
      clean_text = (\<lambda>s. s),
      sent_tokenize = (\<lambda>s. Some [s])\<rparr>"

text \<open>The index of the first occurrence of a value in a list.\<close>

definition first_index :: "'a list \<Rightarrow> 'a \<Rightarrow> nat" where
  "first_index xs v = length (takeWhile (\<lambda>x. x \<noteq> v) xs)"

text \<open>The text of a record's source, empty when the source is absent.\<close>

definition source_text :: "alignment \<Rightarrow> string" where
  "source_text r = (case source r of None \<Rightarrow> [] | Some s \<Rightarrow> s)"

text \<open>
  The answer as claim C6 words it: the sources of all records with \<open>aligned = True\<close>
  if there is one, else those of the records with a present source and similarity at
  least 0.3, by descending similarity and at most five, else the refusal.
\<close>

definition claimed_answer :: "alignment list \<Rightarrow> string" where
  "claimed_answer rs =
     (if list_ex aligned rs then join ''. '' (map source_text (filter aligned rs)) @ ''.''
      else
        let matches =
              take 5 (sort_reverse similarity
                (filter (\<lambda>r. source r \<noteq> None \<and> similarity r \<ge> 0.3) rs))
        in if matches = [] then refusal
           else join ''. '' (map source_text matches) @ ''.'')"

text \<open>
  The document frequency of a term as the specification defines it: the number of
  pages whose term sequence contains the term.
\<close>

definition doc_count :: "text_lib \<Rightarrow> string list \<Rightarrow> string \<Rightarrow> nat" where
  "doc_count lib pages term =
     length (filter (\<lambda>page. term \<in> set (preprocess_text lib page True)) pages)"

text \<open>
  The states of a ranker instance: as the constructor leaves it, and after any call of
  \<^verbatim>\<open>fit\<close> or \<^verbatim>\<open>rank_pages\<close> on such a state.
\<close>

inductive reachable :: "text_lib \<Rightarrow> bm25_ranker \<Rightarrow> bool" for lib :: text_lib where
  constructed: "reachable lib (BM25Ranker k1_arg b_arg delta_arg)"
| fitted: "reachable lib self \<Longrightarrow> reachable lib (snd (fit lib self pages))"
| ranked: "reachable lib self \<Longrightarrow> reachable lib (snd (rank_pages lib self pages query top_k))"

section \<open>Facts about the edit distance\<close>

lemma py_bind_Inr [simp]: "py_bind (Inr v) f = f v"
  by (simp add: py_bind_def)

lemma py_bind_Inl [simp]: "py_bind (Inl e) f = Inl e"
  by (simp add: py_bind_def)

lemma lev_zero_right [simp]: "lev s t i 0 = i"
  by (cases i) simp_all

lemma lev_sym: "lev s t i j = lev t s j i"
proof (induction s t i j rule: lev.induct)
  case (1 s t j)
  show ?case by simp
next
  case (2 s t i)
  show ?case by simp
next
  case (3 s t i j)
  then show ?case by (simp add: min.commute min.left_commute eq_commute)
qed

lemma lev_le_max: "lev s t i j \<le> max i j"
proof (induction s t i j rule: lev.induct)
  case (1 s t j)
  show ?case by simp
next
  case (2 s t i)
  show ?case by simp
next
  case (3 s t i j)
  have "lev s t (Suc i) (Suc j) \<le> lev s t i j + 1"
    by (simp add: min_def)
  also have "\<dots> \<le> max i j + 1" using 3 by simp
  finally show ?case by simp
qed

lemma get_item_Inr [simp]: "i < length xs \<Longrightarrow> get_item xs i = Inr (xs ! i)"
  by (simp add: get_item_def)

lemma set_item_Inr [simp]: "i < length xs \<Longrightarrow> set_item xs i v = Inr (xs[i := v])"
  by (simp add: set_item_def)

lemma dp_cell_value:
  assumes "length previous_row = Suc n" "length current_row = Suc n" "length s2 = n"
    and "i < length s1" "j < n"
  shows "dp_cell s1 s2 (Suc i) previous_row current_row (Suc j) =
     Inr (current_row[Suc j := min (previous_row ! Suc j + 1)
       (min (current_row ! j + 1) (previous_row ! j + (if s1 ! i = s2 ! j then 0 else 1)))])"
  using assms by (simp add: dp_cell_def Let_def)

lemma inner_loop_rows:
  assumes "length previous_row = Suc n" "length s2 = n" "i < length s1"
    and "\<forall>j \<le> n. previous_row ! j = lev s1 s2 i j"
  shows "k \<le> n \<Longrightarrow> length current_row = Suc n \<Longrightarrow>
    \<forall>j \<le> k. current_row ! j = lev s1 s2 (Suc i) j \<Longrightarrow>
    \<exists>row. for_loop [Suc k..<Suc n] (dp_cell s1 s2 (Suc i) previous_row) current_row = Inr row
      \<and> length row = Suc n \<and> (\<forall>j \<le> n. row ! j = lev s1 s2 (Suc i) j)"
proof (induction "n - k" arbitrary: k current_row)
  case 0
  then show ?case by simp
next
  case (Suc d)
  then have kn: "k < n" by simp
  let ?v = "min (previous_row ! Suc k + 1)
       (min (current_row ! k + 1) (previous_row ! k + (if s1 ! i = s2 ! k then 0 else 1)))"
  let ?row = "current_row[Suc k := ?v]"
  have cell: "dp_cell s1 s2 (Suc i) previous_row current_row (Suc k) = Inr ?row"
    using dp_cell_value[OF assms(1) Suc.prems(2) assms(2) assms(3) kn] .
  have v: "?v = lev s1 s2 (Suc i) (Suc k)"
    using assms(4) Suc.prems(3) kn by simp
  have inv: "\<forall>j \<le> Suc k. ?row ! j = lev s1 s2 (Suc i) j"
    using Suc.prems(2,3) kn v by (auto simp: nth_list_update le_Suc_eq)
  have "\<exists>row. for_loop [Suc (Suc k)..<Suc n] (dp_cell s1 s2 (Suc i) previous_row) ?row = Inr row
      \<and> length row = Suc n \<and> (\<forall>j \<le> n. row ! j = lev s1 s2 (Suc i) j)"
    using Suc.hyps(1)[of "Suc k" ?row] Suc.hyps(2) kn Suc.prems(2) inv by simp
  moreover have "[Suc k..<Suc n] = Suc k # [Suc (Suc k)..<Suc n]"
    using kn by (simp add: upt_conv_Cons)
  ultimately show ?case using cell by simp
qed


lemma row_step_rows:
  assumes "length previous_row = Suc n" "length current_row = Suc n" "length s2 = n"
    and "i < length s1" "\<forall>j \<le> n. previous_row ! j = lev s1 s2 i j"
  shows "\<exists>row. row_step s1 s2 (previous_row, current_row) (Suc i) = Inr (row, previous_row)
      \<and> length row = Suc n \<and> (\<forall>j \<le> n. row ! j = lev s1 s2 (Suc i) j)"
proof -
  let ?cur = "current_row[0 := Suc i]"
  have "\<exists>row. for_loop [Suc 0..<Suc n] (dp_cell s1 s2 (Suc i) previous_row) ?cur = Inr row
      \<and> length row = Suc n \<and> (\<forall>j \<le> n. row ! j = lev s1 s2 (Suc i) j)"
    using inner_loop_rows[OF assms(1,3,4,5), of 0 ?cur] assms(2) by simp
  then show ?thesis using assms(2,3) by (auto simp: row_step_def)
qed

lemma outer_loop_rows:
  assumes "length s2 = n"
  shows "k \<le> length s1 \<Longrightarrow> length previous_row = Suc n \<Longrightarrow> length current_row = Suc n \<Longrightarrow>
    \<forall>j \<le> n. previous_row ! j = lev s1 s2 k j \<Longrightarrow>
    \<exists>row other. for_loop [Suc k..<Suc (length s1)] (row_step s1 s2) (previous_row, current_row)
        = Inr (row, other)
      \<and> length row = Suc n \<and> (\<forall>j \<le> n. row ! j = lev s1 s2 (length s1) j)"
proof (induction "length s1 - k" arbitrary: k previous_row current_row)
  case 0
  then show ?case by simp
next
  case (Suc d)
  then have kl: "k < length s1" by simp
  obtain row where row: "row_step s1 s2 (previous_row, current_row) (Suc k) = Inr (row, previous_row)"
      "length row = Suc n" "\<forall>j \<le> n. row ! j = lev s1 s2 (Suc k) j"
    using row_step_rows[OF Suc.prems(2,3) assms kl Suc.prems(4)] by blast
  have "\<exists>r other. for_loop [Suc (Suc k)..<Suc (length s1)] (row_step s1 s2) (row, previous_row)
        = Inr (r, other)
      \<and> length r = Suc n \<and> (\<forall>j \<le> n. r ! j = lev s1 s2 (length s1) j)"
    using Suc.hyps(1)[of "Suc k" row previous_row] Suc.hyps(2) kl row(2,3) Suc.prems(2) by simp
  moreover have "[Suc k..<Suc (length s1)] = Suc k # [Suc (Suc k)..<Suc (length s1)]"
    using kl by (simp add: upt_conv_Cons)
  ultimately show ?case using row(1) by simp
qed

lemma levenshtein_distance_lev:
  "levenshtein_distance s1 s2 =
     Inr (if s1 = s2 then 0 else lev s1 s2 (length s1) (length s2))"
proof (cases "s1 = s2 \<or> s1 = [] \<or> s2 = []")
  case True
  then show ?thesis by (auto simp: levenshtein_distance_def)
next
  case False
  have "\<exists>row other. for_loop [Suc 0..<Suc (length s1)] (row_step s1 s2)
          ([0..<Suc (length s2)], replicate (Suc (length s2)) 0) = Inr (row, other)
      \<and> length row = Suc (length s2) \<and> (\<forall>j \<le> length s2. row ! j = lev s1 s2 (length s1) j)"
    using outer_loop_rows[of s2 "length s2" 0 s1 "[0..<Suc (length s2)]" "replicate (Suc (length s2)) 0"]
    by (simp del: upt_Suc)
  then show ?thesis using False by (auto simp: levenshtein_distance_def simp del: upt_Suc)
qed

lemma levenshtein_ratio_value:
  "levenshtein_ratio s1 s2 =
     Inr (if s1 = s2 then 1
          else 1 - real (lev s1 s2 (length s1) (length s2)) / real (max (length s1) (length s2)))"
  by (auto simp: levenshtein_ratio_def levenshtein_distance_lev Let_def)

lemma levenshtein_ratio_bounds:
  "\<exists>r. levenshtein_ratio s1 s2 = Inr r \<and> 0 \<le> r \<and> r \<le> 1"
proof (cases "s1 = s2")
  case True
  then show ?thesis by (simp add: levenshtein_ratio_value)
next
  case False
  let ?d = "lev s1 s2 (length s1) (length s2)"
  let ?m = "max (length s1) (length s2)"
  have m: "0 < ?m" using False by (cases s1; cases s2) auto
  have "real ?d \<le> real ?m" using lev_le_max[of s1 s2 "length s1" "length s2"] by simp
  then have "real ?d / real ?m \<le> 1" using m by (simp add: divide_le_eq_1)
  moreover have "0 \<le> real ?d / real ?m" by simp
  ultimately show ?thesis using False by (simp add: levenshtein_ratio_value)
qed

section \<open>Claims on the edit-distance engine\<close>

text \<open>A run of the two-row loop.\<close>

lemma levenshtein_distance_example: "levenshtein_distance ''kitten'' ''sitting'' = Inr 3"
  by code_simp

text \<open>
  Claim C7. For all strings \<open>a\<close>, \<open>b\<close>, \<open>x\<close>: the distance of a string to itself is 0,
  the distance is symmetric, the distance of the empty string to \<open>x\<close> is the length of
  \<open>x\<close>; the ratio lies between 0 and 1, the ratio of a string to itself is 1, and so is
  the ratio of the empty string to itself. Neither function raises.
\<close>

theorem levenshtein_algebra:
  "levenshtein_distance a a = Inr 0 \<and>
   levenshtein_distance a b = levenshtein_distance b a \<and>
   levenshtein_distance [] x = Inr (length x) \<and>
   (\<exists>r. levenshtein_ratio a b = Inr r \<and> 0 \<le> r \<and> r \<le> 1) \<and>
   levenshtein_ratio a a = Inr 1 \<and>
   levenshtein_ratio [] [] = Inr 1"
proof -
  have sym: "levenshtein_distance a b = levenshtein_distance b a"
    using lev_sym[of a b "length a" "length b"] by (auto simp: levenshtein_distance_lev)
  have empty: "levenshtein_distance [] x = Inr (length x)"
    by (simp add: levenshtein_distance_def)
  show ?thesis
    using sym empty levenshtein_ratio_bounds[of a b]
    by (simp add: levenshtein_distance_lev levenshtein_ratio_value)
qed

section \<open>Facts about the alignment matcher\<close>

lemma first_index_Cons:
  "first_index (x # xs) v = (if x = v then 0 else Suc (first_index xs v))"
  by (simp add: first_index_def)

lemma first_index_less: "v \<in> set xs \<Longrightarrow> first_index xs v < length xs"
  by (induction xs) (auto simp: first_index_Cons)

lemma nth_first_index: "v \<in> set xs \<Longrightarrow> xs ! first_index xs v = v"
  by (induction xs) (auto simp: first_index_Cons)

lemma argmax_from_char:
  "argmax_from xs i bi b =
     (if xs \<noteq> [] \<and> b < Max (set xs) then i + first_index xs (Max (set xs)) else bi)"
proof (induction xs arbitrary: i bi b)
  case Nil
  show ?case by simp
next
  case (Cons x xs)
  show ?case
  proof (cases "xs = []")
    case True
    then show ?thesis by (simp add: first_index_Cons)
  next
    case False
    then have fin: "finite (set xs)" "set xs \<noteq> {}" by simp_all
    show ?thesis
      using False Cons.IH[of "Suc i"]
      by (auto simp: first_index_Cons Max_insert[OF fin] max_def)
  qed
qed

lemma argmax_first:
  "xs \<noteq> [] \<Longrightarrow> argmax xs = Inr (first_index xs (Max (set xs)))"
proof (cases xs)
  case Nil
  assume "xs \<noteq> []"
  with Nil show ?thesis by simp
next
  case (Cons x rest)
  show ?thesis
  proof (cases "rest = []")
    case True
    with Cons show ?thesis by (simp add: argmax_def first_index_Cons)
  next
    case False
    then have fin: "finite (set rest)" "set rest \<noteq> {}" by simp_all
    show ?thesis using Cons False
      by (auto simp: argmax_def argmax_from_char first_index_Cons Max_insert[OF fin] max_def)
  qed
qed

lemma map_err_ratio:
  "\<exists>scores. map_err (levenshtein_ratio g) srcs = Inr scores \<and> length scores = length srcs
     \<and> (\<forall>s \<in> set scores. 0 \<le> s \<and> s \<le> 1)"
proof (induction srcs)
  case Nil
  show ?case by simp
next
  case (Cons a srcs)
  obtain r where "levenshtein_ratio g a = Inr r" "0 \<le> r" "r \<le> 1"
    using levenshtein_ratio_bounds[of g a] by blast
  with Cons show ?case by auto
qed

lemma best_loop_char:
  "map_err (levenshtein_ratio g) srcs = Inr scores \<Longrightarrow>
   for_loop (enumerate i srcs) (best_step g) (bi, b) =
     Inr (if scores \<noteq> [] \<and> b < Max (set scores)
          then (int (i + first_index scores (Max (set scores))), Max (set scores))
          else (bi, b))"
proof (induction srcs arbitrary: i bi b scores)
  case Nil
  then show ?case by auto
next
  case (Cons a srcs)
  obtain r where r: "levenshtein_ratio g a = Inr r"
    using levenshtein_ratio_bounds[of g a] by blast
  obtain rest where rest: "map_err (levenshtein_ratio g) srcs = Inr rest"
    using map_err_ratio[of g srcs] by blast
  have scores: "scores = r # rest" using Cons.prems r rest by simp
  show ?case
  proof (cases "rest = []")
    case True
    then show ?thesis using Cons.IH[OF rest] r scores
      by (simp add: best_step_def first_index_Cons)
  next
    case False
    then have fin: "finite (set rest)" "set rest \<noteq> {}" by simp_all
    show ?thesis
      using False Cons.IH[OF rest, of "Suc i"] r scores
      by (auto simp: best_step_def first_index_Cons Max_insert[OF fin] max_def)
  qed
qed

lemma align_sentence_value:
  assumes "sources \<noteq> []" and "map_err (levenshtein_ratio g) sources = Inr scores"
  shows "align_sentence sources threshold g =
     Inr (let m = Max (set scores); best = sources ! first_index scores m
          in if threshold \<le> m
             then \<lparr>generated = g, source = Some best, similarity = m, aligned = True\<rparr>
             else if 0.4 \<le> m
             then \<lparr>generated = g, source = Some best, similarity = m, aligned = False\<rparr>
             else \<lparr>generated = g, source = None, similarity = m, aligned = False\<rparr>)"
proof -
  let ?m = "Max (set scores)"
  let ?i = "first_index scores ?m"
  have len: "length scores = length sources" and bounds: "\<forall>s \<in> set scores. 0 \<le> s \<and> s \<le> 1"
    using map_err_ratio[of g sources] assms(2) by auto
  have ne: "scores \<noteq> []" using len assms(1) by auto
  then have mem: "?m \<in> set scores" by simp
  have i: "?i < length scores" "scores ! ?i = ?m"
    using first_index_less[OF mem] nth_first_index[OF mem] by simp_all
  have m0: "0 \<le> ?m" using bounds mem by blast
  have found: "find_closest_text g sources threshold =
      Inr (if threshold \<le> ?m then (int ?i, ?m) else (- 1, ?m))"
    using assms i ne by (simp add: find_closest_text_def argmax_first)
  show ?thesis
  proof (cases "threshold \<le> ?m")
    case True
    then show ?thesis using found i len by (simp add: align_sentence_def Let_def)
  next
    case False
    have loop: "for_loop (enumerate 0 sources) (best_step g) (- 1, 0) =
        Inr (if 0 < ?m then (int ?i, ?m) else (- 1, 0))"
      using best_loop_char[OF assms(2), of 0 "- 1" 0] ne by simp
    show ?thesis
    proof (cases "0 < ?m")
      case True
      then show ?thesis using False found loop i len
        by (simp add: align_sentence_def Let_def)
    next
      case zero: False
      then have "?m = 0" using m0 by simp
      then show ?thesis using False found loop
        by (simp add: align_sentence_def Let_def)
    qed
  qed
qed

lemma align_loop:
  assumes "sources \<noteq> []"
  shows "\<exists>rs. for_loop ss
            (\<lambda>results resp_sent. py_bind (align_sentence sources threshold resp_sent)
               (\<lambda>r. Inr (results @ [r]))) acc = Inr (acc @ rs)
          \<and> list_all2 (\<lambda>g r. align_sentence sources threshold g = Inr r) ss rs"
proof (induction ss arbitrary: acc)
  case Nil
  show ?case by simp
next
  case (Cons g ss)
  obtain scores where "map_err (levenshtein_ratio g) sources = Inr scores"
    using map_err_ratio[of g sources] by blast
  then obtain r where r: "align_sentence sources threshold g = Inr r"
    using align_sentence_value[OF assms] by blast
  obtain rs where rs: "for_loop ss
            (\<lambda>results resp_sent. py_bind (align_sentence sources threshold resp_sent)
               (\<lambda>r. Inr (results @ [r]))) (acc @ [r]) = Inr ((acc @ [r]) @ rs)"
      "list_all2 (\<lambda>g r. align_sentence sources threshold g = Inr r) ss rs"
    using Cons[of "acc @ [r]"] by blast
  show ?case using r rs by (intro exI[of _ "r # rs"]) simp
qed

lemma alignment_records:
  assumes "align_response lib response sources threshold = Inr rs" and "r \<in> set rs"
  shows "\<exists>scores. map_err (levenshtein_ratio (generated r)) sources = Inr scores \<and>
     scores \<noteq> [] \<and>
     (let m = Max (set scores); best = sources ! first_index scores m
      in first_index scores m < length sources \<and>
         0 \<le> similarity r \<and> similarity r \<le> 1 \<and> similarity r = m \<and>
         (aligned r \<longleftrightarrow> threshold \<le> m) \<and>
         source r = (if threshold \<le> m \<or> 0.4 \<le> m then Some best else None))"
proof -
  have ne: "response \<noteq> []" "sources \<noteq> []"
    using assms by (auto simp: align_response_def split: if_splits)
  define ss where "ss = [strip s. s \<leftarrow>
       (case sent_tokenize lib (clean_text lib response) of
          Some sentences \<Rightarrow> sentences
        | None \<Rightarrow> [strip s. s \<leftarrow> split_on CHR ''.'' (clean_text lib response),
                     length (strip s) > 10]),
       length (strip s) > 10]"
  obtain rs' where rs': "for_loop ss
            (\<lambda>results resp_sent. py_bind (align_sentence sources threshold resp_sent)
               (\<lambda>r. Inr (results @ [r]))) [] = Inr ([] @ rs')"
      "list_all2 (\<lambda>g r. align_sentence sources threshold g = Inr r) ss rs'"
    using align_loop[OF ne(2), of ss threshold "[]"] by blast
  have "align_response lib response sources threshold = Inr rs'"
    using ne rs'(1) by (simp add: align_response_def ss_def Let_def)
  then have "rs' = rs" using assms(1) by simp
  then obtain g where g: "align_sentence sources threshold g = Inr r"
    using rs'(2) assms(2) by (auto simp: list_all2_conv_all_nth in_set_conv_nth)
  obtain scores where scores: "map_err (levenshtein_ratio g) sources = Inr scores"
      "length scores = length sources" "\<forall>s \<in> set scores. 0 \<le> s \<and> s \<le> 1"
    using map_err_ratio[of g sources] by blast
  have sne: "scores \<noteq> []" using scores(2) ne(2) by auto
  then have mem: "Max (set scores) \<in> set scores" by simp
  then have mb: "0 \<le> Max (set scores)" "Max (set scores) \<le> 1" using scores(3) by blast+
  have fi: "first_index scores (Max (set scores)) < length sources"
    using first_index_less[OF mem] scores(2) by simp
  have val: "r = (let m = Max (set scores); best = sources ! first_index scores m
          in if threshold \<le> m
             then \<lparr>generated = g, source = Some best, similarity = m, aligned = True\<rparr>
             else if 0.4 \<le> m
             then \<lparr>generated = g, source = Some best, similarity = m, aligned = False\<rparr>
             else \<lparr>generated = g, source = None, similarity = m, aligned = False\<rparr>)"
    using align_sentence_value[OF ne(2) scores(1), of threshold] g by simp
  then have gen: "generated r = g" by (simp add: Let_def split: if_splits)
  show ?thesis
    using scores(1) sne mb fi val unfolding gen
    by (intro exI[of _ scores]) (simp add: Let_def)
qed

section \<open>Claims on the alignment matcher\<close>

text \<open>
  Claim C8. For every list of source sentences, aligning the empty generated text
  returns the empty list, and for every generated text, aligning against the empty
  list of source sentences returns the empty list; neither call raises.
\<close>

theorem align_response_empty:
  "align_response lib [] source_sentences threshold = Inr [] \<and>
   align_response lib response [] threshold = Inr []"
  by (simp add: align_response_def)

lemma align_response_total: "\<exists>rs. align_response lib response sources threshold = Inr rs"
proof (cases "response = [] \<or> sources = []")
  case True
  then show ?thesis by (auto simp: align_response_def)
next
  case False
  then have ne: "sources \<noteq> []" by simp
  show ?thesis
    using False align_loop[OF ne, of _ threshold "[]"]
    by (simp add: align_response_def Let_def) blast
qed

text \<open>
  Claim C5. \<^verbatim>\<open>align_response\<close> returns a list of records and does not raise. For each
  record, let \<open>m\<close> be the maximum of the ratios of its generated sentence against the
  source sentences and \<open>best\<close> the first source sentence that reaches \<open>m\<close> (there is
  one: the list of source sentences is not empty when records are built). Then the
  similarity is \<open>m\<close> and lies between 0 and 1; \<open>aligned\<close> is true exactly when \<open>m\<close> is at
  least the primary threshold; the source is \<open>best\<close> when \<open>m\<close> is at least the primary
  threshold or at least 0.4, and absent otherwise. So a source with \<open>aligned = False\<close>
  occurs only for \<open>0.4 \<le> m < threshold\<close>.
\<close>

theorem alignment_record_invariant:
  "\<exists>rs. align_response lib response sources threshold = Inr rs \<and>
     (\<forall>r \<in> set rs. \<exists>scores.
        map_err (levenshtein_ratio (generated r)) sources = Inr scores \<and> scores \<noteq> [] \<and>
        (let m = Max (set scores); best = sources ! first_index scores m
         in first_index scores m < length sources \<and>
            0 \<le> similarity r \<and> similarity r \<le> 1 \<and> similarity r = m \<and>
            (aligned r \<longleftrightarrow> threshold \<le> m) \<and>
            source r = (if threshold \<le> m \<or> 0.4 \<le> m then Some best else None)))"
  using align_response_total[of lib response sources threshold] alignment_records
  by blast

text \<open>
  Two runs of the model: a generated sentence equal to a source sentence, and one at
  distance 3 from a source sentence of 17 characters, below a primary threshold of 0.9
  and above the fallback threshold.
\<close>

lemma strip_plain [simp]:
  "strip ''la maison est bleue'' = ''la maison est bleue''"
  "strip ''le chat dort ici'' = ''le chat dort ici''"
  by (simp_all add: strip_def py_isspace_def)

lemma align_identical_sentence:
  "align_response plain_lib ''la maison est bleue'' [''la maison est bleue''] 0.7 =
     Inr [\<lparr>generated = ''la maison est bleue'', source = Some ''la maison est bleue'',
           similarity = 1, aligned = True\<rparr>]"
  by (simp add: align_response_def plain_lib_def align_sentence_def find_closest_text_def
        levenshtein_ratio_def levenshtein_distance_def argmax_def get_item_def Let_def)

lemma distance_chat_chien:
  "levenshtein_distance ''le chat dort ici'' ''le chien dort ici'' = Inr 3"
  by code_simp

lemma align_near_sentence:
  "align_response plain_lib ''le chat dort ici'' [''le chien dort ici''] 0.9 =
     Inr [\<lparr>generated = ''le chat dort ici'', source = Some ''le chien dort ici'',
           similarity = 14 / 17, aligned = False\<rparr>]"
  by (simp add: align_response_def plain_lib_def align_sentence_def find_closest_text_def
        levenshtein_ratio_def distance_chat_chien argmax_def get_item_def Let_def
        best_step_def enumerate_simps)

theorem alignment_record_invariant_witness:
  "align_response plain_lib ''le chat dort ici'' [''le chien dort ici''] 0.9 =
     Inr [\<lparr>generated = ''le chat dort ici'', source = Some ''le chien dort ici'',
           similarity = 14 / 17, aligned = False\<rparr>] \<and>
   map_err (levenshtein_ratio ''le chat dort ici'') [''le chien dort ici''] = Inr [14 / 17] \<and>
   Max (set [14 / 17 :: real]) = 14 / 17 \<and> \<not> (0.9 :: real) \<le> 14 / 17 \<and>
   (0.4 :: real) \<le> 14 / 17 \<and>
   [''le chien dort ici''] ! first_index [14 / 17 :: real] (14 / 17) = ''le chien dort ici''"
  using alignment_record_invariant[of plain_lib "''le chat dort ici''"
      "[''le chien dort ici'']" "0.9"]
  by (simp add: align_near_sentence levenshtein_ratio_def distance_chat_chien first_index_def)

section \<open>Claims on the grounded-response builder\<close>

lemma insort_key_map:
  "insort_key f (g x) (map g xs) = map g (insort_key (\<lambda>a. f (g a)) x xs)"
  by (induction xs) auto

lemma sort_key_map: "sort_key f (map g xs) = map g (sort_key (\<lambda>a. f (g a)) xs)"
  by (induction xs) (auto simp: insort_key_map)

lemma sort_reverse_map:
  "sort_reverse f (map g xs) = map g (sort_reverse (\<lambda>a. f (g a)) xs)"
  by (simp add: sort_reverse_def sort_key_map rev_map)

lemma aligned_sources_filter:
  "aligned_sources rs = map source_text (filter (\<lambda>r. aligned r \<and> truthy (source r)) rs)"
  by (induction rs)
     (auto simp: aligned_sources_def List.map_filter_simps source_text_def truthy_def
           split: option.splits)

lemma best_matches_filter:
  "foldl best_match_step acc rs =
     acc @ map (\<lambda>r. (source_text r, similarity r))
             (filter (\<lambda>r. truthy (source r) \<and> 0.3 \<le> similarity r) rs)"
  by (induction rs arbitrary: acc)
     (auto simp: best_match_step_def source_text_def truthy_def split: option.splits)

lemma fallback_sources_filter:
  "fallback_sources rs =
     map source_text (take 5 (sort_reverse similarity
       (filter (\<lambda>r. truthy (source r) \<and> 0.3 \<le> similarity r) rs)))"
proof -
  show ?thesis
    by (simp add: fallback_sources_def best_matches_filter sort_reverse_map take_map
          comp_def)
qed

lemma set_sort_reverse [simp]: "set (sort_reverse f xs) = set xs"
  by (simp add: sort_reverse_def)

text \<open>
  Claim C6, amended. For every list of records, \<^verbatim>\<open>build_factual_response\<close> returns: if
  some record has \<open>aligned = True\<close> and a present, non-empty source, the sources of exactly
  those records joined with \<open>". "\<close> plus a final period, in record order; otherwise
  the sources of the records with a present, non-empty source and similarity at least
  0.3, by descending similarity (records of equal similarity in record order), at most
  five, joined in the same way; otherwise the refusal string. So the answer is the
  refusal string or a concatenation of sources of the given records.
\<close>

theorem build_factual_response_selection:
  "build_factual_response rs =
     (let primary = filter (\<lambda>r. aligned r \<and> truthy (source r)) rs;
          fallback = take 5 (sort_reverse similarity
                       (filter (\<lambda>r. truthy (source r) \<and> 0.3 \<le> similarity r) rs));
          chosen = (if primary \<noteq> [] then primary else fallback)
      in if chosen = [] then refusal else join ''. '' (map source_text chosen) @ ''.'') \<and>
   (build_factual_response rs = refusal \<or>
    (\<exists>chosen. chosen \<noteq> [] \<and> set chosen \<subseteq> set rs \<and> list_all (\<lambda>r. truthy (source r)) chosen \<and>
       build_factual_response rs = join ''. '' (map source_text chosen) @ ''.''))"
proof -
  let ?primary = "filter (\<lambda>r. aligned r \<and> truthy (source r)) rs"
  let ?fallback = "take 5 (sort_reverse similarity
                       (filter (\<lambda>r. truthy (source r) \<and> 0.3 \<le> similarity r) rs))"
  let ?chosen = "if ?primary \<noteq> [] then ?primary else ?fallback"
  have eq: "build_factual_response rs =
      (if ?chosen = [] then refusal else join ''. '' (map source_text ?chosen) @ ''.'')"
    by (simp add: build_factual_response_def selected_parts_def aligned_sources_filter
          fallback_sources_filter Let_def)
  have sub: "set ?chosen \<subseteq> set rs"
    using set_take_subset[of 5 "sort_reverse similarity
        (filter (\<lambda>r. truthy (source r) \<and> 0.3 \<le> similarity r) rs)"] by auto
  have tr: "list_all (\<lambda>r. truthy (source r)) ?chosen"
    using set_take_subset[of 5 "sort_reverse similarity
        (filter (\<lambda>r. truthy (source r) \<and> 0.3 \<le> similarity r) rs)"]
    by (auto simp: list_all_iff)
  have "build_factual_response rs = refusal \<or>
    (\<exists>chosen. chosen \<noteq> [] \<and> set chosen \<subseteq> set rs \<and> list_all (\<lambda>r. truthy (source r)) chosen \<and>
       build_factual_response rs = join ''. '' (map source_text chosen) @ ''.'')"
  proof (cases "?chosen = []")
    case True
    then show ?thesis using eq by simp
  next
    case False
    then have "build_factual_response rs = join ''. '' (map source_text ?chosen) @ ''.''"
      using eq by simp
    then show ?thesis using False sub tr by blast
  qed
  then show ?thesis using eq by (simp add: Let_def)
qed

text \<open>
  Claim C6 as stated fails where a record with \<open>aligned = True\<close> has an empty source: the
  record is skipped and the fallback runs, while the claim gives the joined sources of
  the aligned records.
\<close>

theorem build_factual_response_counterexample:
  "build_factual_response
     [\<lparr>generated = ''g'', source = Some [], similarity = 1, aligned = True\<rparr>,
      \<lparr>generated = ''h'', source = Some ''B'', similarity = 0.5, aligned = False\<rparr>] = ''B.'' \<and>
   claimed_answer
     [\<lparr>generated = ''g'', source = Some [], similarity = 1, aligned = True\<rparr>,
      \<lparr>generated = ''h'', source = Some ''B'', similarity = 0.5, aligned = False\<rparr>] = ''.'' \<and>
   build_factual_response
     [\<lparr>generated = ''g'', source = Some [], similarity = 1, aligned = True\<rparr>,
      \<lparr>generated = ''h'', source = Some ''B'', similarity = 0.5, aligned = False\<rparr>] \<noteq>
   claimed_answer
     [\<lparr>generated = ''g'', source = Some [], similarity = 1, aligned = True\<rparr>,
      \<lparr>generated = ''h'', source = Some ''B'', similarity = 0.5, aligned = False\<rparr>]"
  by (simp add: build_factual_response_def selected_parts_def aligned_sources_def
        List.map_filter_simps truthy_def fallback_sources_def best_match_step_def
        sort_reverse_def claimed_answer_def source_text_def Let_def)

text \<open>
  On the lists in which no source is the empty string and every record with
  \<open>aligned = True\<close> has a source, which are the lists that \<^verbatim>\<open>align_response\<close> builds from
  non-empty source sentences, the code returns the answer of claim C6 as stated.
\<close>

lemma build_factual_response_claimed:
  assumes "\<forall>r \<in> set rs. source r \<noteq> Some [] \<and> (aligned r \<longrightarrow> source r \<noteq> None)"
  shows "build_factual_response rs = claimed_answer rs"
proof -
  have tr: "truthy (source r) \<longleftrightarrow> source r \<noteq> None" if "r \<in> set rs" for r
    using assms that by (cases "source r") (auto simp: truthy_def)
  have prim: "filter (\<lambda>r. aligned r \<and> truthy (source r)) rs = filter aligned rs"
    using assms tr by (intro filter_cong) auto
  have fb: "filter (\<lambda>r. truthy (source r) \<and> 0.3 \<le> similarity r) rs =
      filter (\<lambda>r. source r \<noteq> None \<and> 0.3 \<le> similarity r) rs"
    using tr by (intro filter_cong) auto
  have ex: "list_ex aligned rs \<longleftrightarrow> filter aligned rs \<noteq> []"
    by (auto simp: list_ex_iff filter_empty_conv)
  have sel: "selected_parts rs =
      (if filter aligned rs = []
       then map source_text (take 5 (sort_reverse similarity
              (filter (\<lambda>r. source r \<noteq> None \<and> 0.3 \<le> similarity r) rs)))
       else map source_text (filter aligned rs))"
    unfolding selected_parts_def aligned_sources_filter fallback_sources_filter prim fb
    by (simp add: Let_def)
  show ?thesis
    unfolding build_factual_response_def claimed_answer_def sel ex
    by (simp add: Let_def)
qed

text \<open>With no records the answer is the refusal.\<close>

lemma build_factual_response_empty: "build_factual_response [] = refusal"
  by (simp add: build_factual_response_def selected_parts_def aligned_sources_def
        List.map_filter_simps fallback_sources_def sort_reverse_def Let_def)

lemma count_list_source_text:
  assumes "s \<noteq> []" and "list_all (\<lambda>r. truthy (source r)) xs"
  shows "count_list (map source_text xs) s = length (filter (\<lambda>r. source r = Some s) xs)"
  using assms(2)
  by (induction xs) (auto simp: source_text_def truthy_def split: option.splits)

lemma count_list_aligned_sources:
  assumes "s \<noteq> []"
  shows "count_list (aligned_sources rs) s =
     length (filter (\<lambda>r. aligned r \<and> source r = Some s) rs)"
proof -
  have "list_all (\<lambda>r. truthy (source r)) (filter (\<lambda>r. aligned r \<and> truthy (source r)) rs)"
    by (simp add: list_all_iff)
  then have "count_list (aligned_sources rs) s =
      length (filter (\<lambda>r. source r = Some s) (filter (\<lambda>r. aligned r \<and> truthy (source r)) rs))"
    using count_list_source_text[OF assms] by (simp add: aligned_sources_filter)
  also have "\<dots> = length (filter (\<lambda>r. aligned r \<and> source r = Some s) rs)"
    using assms by (auto simp: truthy_def intro!: arg_cong[where f = length] filter_cong)
  finally show ?thesis .
qed

lemma count_list_fallback_sources:
  assumes "s \<noteq> []"
  shows "count_list (fallback_sources rs) s =
     length (filter (\<lambda>r. source r = Some s)
       (take 5 (sort_reverse similarity
          (filter (\<lambda>r. truthy (source r) \<and> 0.3 \<le> similarity r) rs))))"
proof -
  let ?sel = "take 5 (sort_reverse similarity
          (filter (\<lambda>r. truthy (source r) \<and> 0.3 \<le> similarity r) rs))"
  have "list_all (\<lambda>r. truthy (source r)) ?sel"
    using set_take_subset[of 5 "sort_reverse similarity
          (filter (\<lambda>r. truthy (source r) \<and> 0.3 \<le> similarity r) rs)"]
    by (auto simp: list_all_iff)
  then show ?thesis
    using count_list_source_text[OF assms] by (simp add: fallback_sources_filter)
qed

text \<open>
  Claim C10, amended. \<^verbatim>\<open>build_factual_response\<close> removes no duplicates. For a non-empty
  sentence \<open>s\<close>: it occurs among the aligned parts once for each record with
  \<open>aligned = True\<close> and source \<open>s\<close>; it occurs among the fallback parts once for each
  record with source \<open>s\<close> among the at most five records that the fallback retains (the
  first five, by descending similarity, of the records with a present, non-empty
  source and similarity at least 0.3); and the answer joins the aligned parts if there
  are any, else the fallback parts if there are any.
\<close>

theorem no_deduplication:
  assumes "s \<noteq> []"
  shows "count_list (aligned_sources rs) s =
       length (filter (\<lambda>r. aligned r \<and> source r = Some s) rs) \<and>
     count_list (fallback_sources rs) s =
       length (filter (\<lambda>r. source r = Some s)
         (take 5 (sort_reverse similarity
            (filter (\<lambda>r. truthy (source r) \<and> 0.3 \<le> similarity r) rs)))) \<and>
     build_factual_response rs =
       (if aligned_sources rs \<noteq> [] then join ''. '' (aligned_sources rs) @ ''.''
        else if fallback_sources rs \<noteq> [] then join ''. '' (fallback_sources rs) @ ''.''
        else refusal)"
  using count_list_aligned_sources[OF assms] count_list_fallback_sources[OF assms]
  by (simp add: build_factual_response_def selected_parts_def Let_def)

theorem no_deduplication_witness:
  "''A'' \<noteq> [] \<and>
   count_list (aligned_sources
     [\<lparr>generated = ''g'', source = Some ''A'', similarity = 0.9, aligned = True\<rparr>,
      \<lparr>generated = ''h'', source = Some ''A'', similarity = 0.8, aligned = True\<rparr>]) ''A'' = 2 \<and>
   build_factual_response
     [\<lparr>generated = ''g'', source = Some ''A'', similarity = 0.9, aligned = True\<rparr>,
      \<lparr>generated = ''h'', source = Some ''A'', similarity = 0.8, aligned = True\<rparr>] = ''A. A.''"
  using no_deduplication[of "''A''"
     "[\<lparr>generated = ''g'', source = Some ''A'', similarity = 0.9, aligned = True\<rparr>,
      \<lparr>generated = ''h'', source = Some ''A'', similarity = 0.8, aligned = True\<rparr>]"]
  by (simp add: aligned_sources_def List.map_filter_simps truthy_def)

text \<open>
  Claim C10 as stated fails in the fallback path for more than five qualifying records:
  of six records with the same source and similarity 0.5, five contribute. It also
  fails for a record with \<open>aligned = True\<close> and an empty source, which contributes no
  part.
\<close>

theorem fallback_truncation_counterexample:
  "build_factual_response
     (replicate 6 \<lparr>generated = ''g'', source = Some ''A'', similarity = 0.5, aligned = False\<rparr>)
     = ''A. A. A. A. A.'' \<and>
   length (filter (\<lambda>r. source r \<noteq> None \<and> similarity r \<ge> 0.3)
     (replicate 6 \<lparr>generated = ''g'', source = Some ''A'', similarity = 0.5, aligned = False\<rparr>))
     = 6 \<and>
   count_list (selected_parts
     (replicate 6 \<lparr>generated = ''g'', source = Some ''A'', similarity = 0.5, aligned = False\<rparr>))
     ''A'' = 5 \<and>
   selected_parts
     [\<lparr>generated = ''g'', source = Some [], similarity = 1, aligned = True\<rparr>,
      \<lparr>generated = ''h'', source = Some ''B'', similarity = 1, aligned = True\<rparr>] = [''B'']"
  by (simp add: build_factual_response_def selected_parts_def aligned_sources_def
        List.map_filter_simps truthy_def fallback_sources_def best_match_step_def
        sort_reverse_def Let_def eval_nat_numeral)

section \<open>Facts about the BM25+ ranker\<close>

lemma fit_page_fold:
  "foldl (fit_page lib) (toks, lens, tdf, terms) pages =
     (toks @ map (\<lambda>p. preprocess_text lib p True) pages,
      lens @ map (\<lambda>p. length (preprocess_text lib p True)) pages,
      (\<lambda>t. if doc_count lib pages t = 0 then tdf t
            else Some ((case tdf t of None \<Rightarrow> 0 | Some n \<Rightarrow> n) + doc_count lib pages t)),
      terms \<union> (\<Union>p \<in> set pages. set (preprocess_text lib p True)))"
proof (induction pages arbitrary: toks lens tdf terms)
  case Nil
  show ?case by (simp add: doc_count_def)
next
  case (Cons p pages)
  let ?pp = "preprocess_text lib p True"
  let ?tdf = "\<lambda>term. if term \<in> set ?pp
                     then Some ((case tdf term of None \<Rightarrow> 0 | Some n \<Rightarrow> n) + 1)
                     else tdf term"
  have step: "fit_page lib (toks, lens, tdf, terms) p =
      (toks @ [?pp], lens @ [length ?pp], ?tdf, terms \<union> set ?pp)"
    by (simp add: fit_page_def Let_def)
  have tdf: "(\<lambda>t. if doc_count lib pages t = 0 then ?tdf t
            else Some ((case ?tdf t of None \<Rightarrow> 0 | Some n \<Rightarrow> n) + doc_count lib pages t)) =
        (\<lambda>t. if doc_count lib (p # pages) t = 0 then tdf t
            else Some ((case tdf t of None \<Rightarrow> 0 | Some n \<Rightarrow> n) + doc_count lib (p # pages) t))"
    by (rule ext) (simp add: doc_count_def)
  show ?case
    unfolding foldl_Cons step Cons.IH tdf by (simp add: Un_assoc)
qed

lemma fit_value:
  "fit lib self pages =
     (map (\<lambda>p. preprocess_text lib p True) pages,
      calculate_idf
        (self\<lparr>total_docs := length pages,
              doc_lens := map (\<lambda>p. length (preprocess_text lib p True)) pages,
              corpus_terms := corpus_terms self \<union> (\<Union>p \<in> set pages. set (preprocess_text lib p True)),
              avg_doc_len := real (sum_list (map (\<lambda>p. length (preprocess_text lib p True)) pages))
                               / real (max 1 (length pages)),
              doc_freqs := (\<lambda>t. if doc_count lib pages t = 0 then None
                                 else Some (doc_count lib pages t))\<rparr>))"
  by (simp add: fit_def fit_page_fold cong: if_cong)

lemma rank_pages_state:
  "snd (rank_pages lib self pages query top_k) =
     (if pages = [] then self else snd (fit lib self pages))"
  by (simp add: rank_pages_def Let_def split: prod.splits)

lemma fit_state_fields:
  "k1 (snd (fit lib self pages)) = k1 self"
  "b_len (snd (fit lib self pages)) = b_len self"
  "delta (snd (fit lib self pages)) = delta self"
  "total_docs (snd (fit lib self pages)) = length pages"
  "doc_lens (snd (fit lib self pages)) = map (\<lambda>p. length (preprocess_text lib p True)) pages"
  "corpus_terms (snd (fit lib self pages)) =
     corpus_terms self \<union> (\<Union>p \<in> set pages. set (preprocess_text lib p True))"
  "avg_doc_len (snd (fit lib self pages)) =
     real (sum_list (map (\<lambda>p. length (preprocess_text lib p True)) pages))
       / real (max 1 (length pages))"
  "doc_freqs (snd (fit lib self pages)) =
     (\<lambda>t. if doc_count lib pages t = 0 then None else Some (doc_count lib pages t))"
  by (simp_all add: fit_value calculate_idf_def)

lemma fit_idf:
  "idf (snd (fit lib self pages)) t =
     (if t \<in> corpus_terms self \<or> doc_count lib pages t \<noteq> 0
      then Some (ln ((real (length pages) - real (doc_count lib pages t) + 0.5)
                      / (real (doc_count lib pages t) + 0.5) + 1)
                 * (case map_of domain_terms t of None \<Rightarrow> 1 | Some w \<Rightarrow> w))
      else idf self t)"
proof -
  have "(\<exists>p \<in> set pages. t \<in> set (preprocess_text lib p True)) \<longleftrightarrow> doc_count lib pages t \<noteq> 0"
    by (auto simp: doc_count_def filter_empty_conv)
  then show ?thesis
    by (auto simp: fit_value calculate_idf_def idf_value_def idf_arg_def Let_def
          split: option.splits)
qed

lemma rank_pages_value:
  assumes "pages \<noteq> []"
    and "fit lib self pages = (tokenized_pages, st)"
    and "score_pages st (expand_query lib (preprocess_text lib query True)) tokenized_pages
           = Inr scores"
    and "scores \<noteq> []"
    and "keep_above scores (Max (set scores) * 0.1) (rev (argsort scores)) = Inr kept"
  shows "fst (rank_pages lib self pages query top_k) =
     Inr (case top_k of None \<Rightarrow> kept
          | Some k \<Rightarrow> if k < int (length kept) then py_prefix kept k else kept)"
  using assms by (simp add: rank_pages_def Let_def split: option.splits)

section \<open>What \<^verbatim>\<open>rank_pages\<close> returns on a corpus with terms\<close>

lemma score_loop_total:
  assumes "0 < k1 self" "0 \<le> b_len self" "b_len self < 1" "0 \<le> nl"
  shows "\<exists>r. for_loop ts (score_term self p q nl) s = Inr r"
proof (induction ts arbitrary: s)
  case Nil
  show ?case by simp
next
  case (Cons t ts)
  have "0 \<le> b_len self * nl" using assms(2,4) by simp
  then have "0 < 1 - b_len self + b_len self * nl" using assms(3) by linarith
  then have "0 < k1 self * (1 - b_len self + b_len self * nl)" using assms(1) by simp
  moreover have "0 \<le> real (count_list p t)" by simp
  ultimately have "real (count_list p t) + k1 self * (1 - b_len self + b_len self * nl) \<noteq> 0"
    by linarith
  then obtain r where "score_term self p q nl s t = Inr r"
    by (cases "idf self t") (simp_all add: score_term_def py_div_def Let_def)
  then show ?case using Cons[of r] by simp
qed

lemma calculate_page_score_total:
  assumes "0 < k1 self" "0 \<le> b_len self" "b_len self < 1" "0 < avg_doc_len self"
    and "i < length (doc_lens self)"
  shows "\<exists>s. calculate_page_score self p q i = Inr s"
proof -
  have "0 \<le> real (doc_lens self ! i) / avg_doc_len self" using assms(4) by simp
  then show ?thesis
    using score_loop_total[OF assms(1-3), of "real (doc_lens self ! i) / avg_doc_len self" q p q 0]
      assms(4,5)
    by (simp add: calculate_page_score_def py_div_def)
qed

lemma score_loop_pages:
  assumes "0 < k1 self" "0 \<le> b_len self" "b_len self < 1" "0 < avg_doc_len self"
  shows "i + length toks \<le> length (doc_lens self) \<Longrightarrow>
    \<exists>ys. for_loop (enumerate i toks)
            (\<lambda>scores p. case p of (i, page_terms) \<Rightarrow>
               py_bind (calculate_page_score self page_terms q i)
                 (\<lambda>score. Inr (scores @ [score]))) acc = Inr (acc @ ys)
          \<and> length ys = length toks"
proof (induction toks arbitrary: i acc)
  case Nil
  show ?case by simp
next
  case (Cons p toks)
  obtain s where s: "calculate_page_score self p q i = Inr s"
    using calculate_page_score_total[OF assms, of i p q] Cons.prems by auto
  obtain ys where "for_loop (enumerate (Suc i) toks)
            (\<lambda>scores p. case p of (i, page_terms) \<Rightarrow>
               py_bind (calculate_page_score self page_terms q i)
                 (\<lambda>score. Inr (scores @ [score]))) (acc @ [s]) = Inr ((acc @ [s]) @ ys)"
      "length ys = length toks"
    using Cons.IH[of "Suc i" "acc @ [s]"] Cons.prems by auto
  then show ?case using s by (intro exI[of _ "s # ys"]) simp
qed

lemma keep_loop_filter:
  "\<forall>i \<in> set idxs. i < length scores \<Longrightarrow>
   for_loop idxs
     (\<lambda>kept idx. py_bind (get_item scores idx)
        (\<lambda>s. Inr (if s > threshold then kept @ [idx] else kept))) acc
   = Inr (acc @ filter (\<lambda>i. threshold < scores ! i) idxs)"
  by (induction idxs arbitrary: acc) simp_all

lemma keep_above_filter:
  "\<forall>i \<in> set idxs. i < length scores \<Longrightarrow>
   keep_above scores threshold idxs = Inr (filter (\<lambda>i. threshold < scores ! i) idxs)"
  using keep_loop_filter[of idxs scores threshold "[]"] by (simp add: keep_above_def)

lemma argsort_facts:
  "set (argsort scores) = {0..<length scores}" "distinct (argsort scores)"
  "sorted_wrt (\<lambda>i j. scores ! j \<le> scores ! i) (rev (argsort scores))"
proof -
  show "set (argsort scores) = {0..<length scores}" by (simp add: argsort_def)
  show "distinct (argsort scores)" by (simp add: argsort_def)
  have "sorted (map (\<lambda>i. scores ! i) (argsort scores))" by (simp add: argsort_def)
  then have "sorted_wrt (\<lambda>i j. scores ! i \<le> scores ! j) (argsort scores)"
    by (simp add: sorted_map)
  then show "sorted_wrt (\<lambda>i j. scores ! j \<le> scores ! i) (rev (argsort scores))"
    by (simp add: sorted_wrt_rev)
qed

lemma py_prefix_take: "\<exists>n. py_prefix xs k = take n xs"
  by (auto simp: py_prefix_def)

text \<open>
  On a corpus in which some page has a term, with \<open>0 < k1\<close> and \<open>0 \<le> b < 1\<close>, and in any
  earlier state of the instance, \<^verbatim>\<open>rank_pages\<close> returns without error a duplicate-free
  list of page indices, in descending order of score, each with a score above a tenth
  of the maximum. On the empty corpus it returns the empty list.
\<close>

lemma rank_pages_result:
  assumes "pages \<noteq> []" and "\<exists>p \<in> set pages. preprocess_text lib p True \<noteq> []"
    and "0 < k1 self" and "0 \<le> b_len self" and "b_len self < 1"
  shows "\<exists>scores r.
     score_pages (snd (fit lib self pages)) (expand_query lib (preprocess_text lib query True))
       (fst (fit lib self pages)) = Inr scores \<and>
     length scores = length pages \<and>
     fst (rank_pages lib self pages query top_k) = Inr r \<and>
     distinct r \<and> set r \<subseteq> {0..<length pages} \<and>
     sorted_wrt (\<lambda>i j. scores ! j \<le> scores ! i) r \<and>
     (\<forall>i \<in> set r. Max (set scores) * 0.1 < scores ! i)"
proof -
  define st where "st = snd (fit lib self pages)"
  define toks where "toks = fst (fit lib self pages)"
  define q where "q = expand_query lib (preprocess_text lib query True)"
  have fit: "fit lib self pages = (toks, st)" by (simp add: st_def toks_def)
  have len: "length toks = length pages" "length (doc_lens st) = length pages"
    by (simp add: toks_def fit_value) (simp add: st_def fit_state_fields)
  obtain p where p: "p \<in> set pages" "preprocess_text lib p True \<noteq> []"
    using assms(2) by blast
  have "0 < length (preprocess_text lib p True)" using p(2) by simp
  also have "\<dots> \<le> sum_list (map (\<lambda>p. length (preprocess_text lib p True)) pages)"
    using p(1) member_le_sum_list[of "length (preprocess_text lib p True)"
        "map (\<lambda>p. length (preprocess_text lib p True)) pages"] by auto
  finally have "0 < real (sum_list (map (\<lambda>p. length (preprocess_text lib p True)) pages))"
    by simp
  then have avg: "0 < avg_doc_len st" by (simp add: st_def fit_state_fields)
  have par: "0 < k1 st" "0 \<le> b_len st" "b_len st < 1"
    using assms(3-5) by (simp_all add: st_def fit_state_fields)
  obtain scores where scores: "score_pages st q toks = Inr scores" "length scores = length toks"
    using score_loop_pages[OF par avg, of 0 toks q "[]"] len by (auto simp: score_pages_def)
  have ne: "scores \<noteq> []" using scores(2) len(1) assms(1) by auto
  define thr where "thr = Max (set scores) * 0.1"
  define kept where "kept = filter (\<lambda>i. thr < scores ! i) (rev (argsort scores))"
  have idx: "\<forall>i \<in> set (rev (argsort scores)). i < length scores"
    using argsort_facts(1)[of scores] by simp
  have keep: "keep_above scores (Max (set scores) * 0.1) (rev (argsort scores)) = Inr kept"
    unfolding kept_def thr_def by (rule keep_above_filter[OF idx])
  define r where "r = (case top_k of None \<Rightarrow> kept
          | Some k \<Rightarrow> if k < int (length kept) then py_prefix kept k else kept)"
  have res: "fst (rank_pages lib self pages query top_k) = Inr r"
    unfolding r_def
    by (rule rank_pages_value[OF assms(1) fit scores(1)[unfolded q_def] ne keep])
  have "\<exists>n. r = take n kept"
  proof (cases top_k)
    case None
    then have "r = take (length kept) kept" by (simp add: r_def)
    then show ?thesis by blast
  next
    case (Some k)
    show ?thesis
    proof (cases "k < int (length kept)")
      case True
      then show ?thesis using Some py_prefix_take[of kept k] by (simp add: r_def)
    next
      case False
      then have "r = take (length kept) kept" using Some by (simp add: r_def)
      then show ?thesis by blast
    qed
  qed
  then obtain n where n: "r = take n kept" by blast
  have d: "distinct kept" unfolding kept_def using argsort_facts(2)[of scores] by simp
  have "set kept \<subseteq> set (argsort scores)" unfolding kept_def by auto
  then have s: "set kept \<subseteq> {0..<length pages}"
    using argsort_facts(1)[of scores] scores(2) len(1) by simp
  have o: "sorted_wrt (\<lambda>i j. scores ! j \<le> scores ! i) kept"
    unfolding kept_def using argsort_facts(3)[of scores] by (rule sorted_wrt_filter)
  have t: "\<forall>i \<in> set kept. Max (set scores) * 0.1 < scores ! i"
    unfolding kept_def thr_def by simp
  have sub: "set r \<subseteq> set kept" unfolding n by (rule set_take_subset)
  have p1: "distinct r" unfolding n using d by simp
  have p2: "set r \<subseteq> {0..<length pages}" using sub s by blast
  have p3: "sorted_wrt (\<lambda>i j. scores ! j \<le> scores ! i) r"
    unfolding n using o by (rule sorted_wrt_take)
  have p4: "\<forall>i \<in> set r. Max (set scores) * 0.1 < scores ! i" using sub t by blast
  have l: "length scores = length pages" using scores(2) len(1) by simp
  show ?thesis
    unfolding st_def[symmetric] toks_def[symmetric] q_def[symmetric]
    using scores(1) l res p1 p2 p3 p4
    by (intro exI[of _ scores] exI[of _ r] conjI)
qed

lemma rank_pages_empty_corpus: "rank_pages lib self [] query top_k = (Inr [], self)"
  by (simp add: rank_pages_def)

section \<open>Claims on the BM25+ ranker\<close>

text \<open>Runs of the tokenizer and of the query expansion on the words used below.\<close>

lemma preprocess_chat [simp]: "preprocess_text plain_lib ''chat'' True = [''chat'']"
  by (simp add: preprocess_text_def plain_lib_def isdigit_def punctuation_def Let_def)

lemma preprocess_chien [simp]: "preprocess_text plain_lib ''chien'' True = [''chien'']"
  by (simp add: preprocess_text_def plain_lib_def isdigit_def punctuation_def Let_def)

lemma preprocess_empty [simp]: "preprocess_text plain_lib [] True = []"
  by (simp add: preprocess_text_def plain_lib_def isdigit_def punctuation_def Let_def)

lemma preprocess_a [simp]: "preprocess_text plain_lib ''a'' True = []"
  by (simp add: preprocess_text_def plain_lib_def isdigit_def punctuation_def Let_def)

lemma expand_chat [simp]: "expand_query plain_lib [''chat''] = [''chat'']"
  by (simp add: expand_query_def expand_term_def expansion_map_def domain_terms_def plain_lib_def
      e_acute_def e_grave_def e_circ_def Let_def)

lemma domain_chat [simp]: "map_of domain_terms ''chat'' = None"
  by (simp add: domain_terms_def e_acute_def e_grave_def e_circ_def)

lemma fit_pages_without_terms:
  assumes "\<forall>p \<in> set pages. preprocess_text lib p True = []"
  shows "foldl (fit_page lib) (toks, lens, tdf, terms) pages =
     (toks @ replicate (length pages) [], lens @ replicate (length pages) 0, tdf, terms)"
  using assms
proof (induction pages arbitrary: toks lens)
  case Nil
  show ?case by simp
next
  case (Cons p pages)
  have step: "fit_page lib (toks, lens, tdf, terms) p = (toks @ [[]], lens @ [0], tdf, terms)"
    using Cons.prems by (simp add: fit_page_def)
  show ?case
    using Cons.IH[of "toks @ [[]]" "lens @ [0]"] Cons.prems
    by (simp add: step replicate_app_Cons_same)
qed

lemma rank_pages_raises:
  assumes "pages \<noteq> []" and "\<forall>p \<in> set pages. preprocess_text lib p True = []"
  shows "fst (rank_pages lib self pages query top_k) = Inl ZeroDivisionError"
proof -
  let ?n = "length pages"
  define st where "st = calculate_idf
             (self\<lparr>total_docs := ?n, doc_lens := replicate ?n 0,
                   corpus_terms := corpus_terms self,
                   avg_doc_len := real (sum_list (replicate ?n (0::nat))) / real (max 1 ?n),
                   doc_freqs := Map.empty\<rparr>)"
  have fit: "fit lib self pages = (replicate ?n [], st)"
    using fit_pages_without_terms[OF assms(2), of "[]" "[]" Map.empty "corpus_terms self"]
    by (simp add: fit_def st_def)
  have avg: "avg_doc_len st = 0" by (simp add: st_def calculate_idf_def sum_list_replicate)
  have lens: "get_item (doc_lens st) 0 = Inr 0"
    using assms(1) by (simp add: st_def calculate_idf_def get_item_def)
  have score: "calculate_page_score st [] q 0 = Inl ZeroDivisionError" for q
    by (simp add: calculate_page_score_def avg lens py_div_def)
  obtain m where m: "?n = Suc m" using assms(1) by (cases pages) auto
  have "score_pages st q (replicate ?n []) = Inl ZeroDivisionError" for q
    unfolding m by (simp add: score_pages_def score)
  then show ?thesis using assms(1) by (simp add: rank_pages_def fit Let_def)
qed

text \<open>
  Claim C1 fails for \<^verbatim>\<open>rank_pages\<close>. On a non-empty corpus in which every page has no
  term, \<^verbatim>\<open>fit\<close> sets \<^verbatim>\<open>avg_doc_len\<close> to 0 and the division
  \<^verbatim>\<open>doc_len / self.avg_doc_len\<close> for the first page raises \<^verbatim>\<open>ZeroDivisionError\<close>, for every
  query, every \<^verbatim>\<open>top_k\<close> and every earlier state of the instance.
\<close>

theorem rank_pages_without_terms_raises:
  assumes "pages \<noteq> []" and "\<forall>p \<in> set pages. preprocess_text lib p True = []"
  shows "fst (rank_pages lib self pages query top_k) = Inl ZeroDivisionError"
  using assms by (rule rank_pages_raises)

theorem rank_pages_without_terms_raises_witness:
  "[[]] \<noteq> ([] :: string list) \<and> preprocess_text plain_lib [] True = [] \<and>
   fst (rank_pages plain_lib default_ranker [[]] ''chat'' None) = Inl ZeroDivisionError"
  using rank_pages_without_terms_raises[of "[[]]" plain_lib default_ranker "''chat''" None]
  by simp

lemma second_call_stale:
  assumes "corpus_terms self = {''chat''}" "k1 self = 1.5" "b_len self = 0.75" "delta self = 1"
  shows "fst (rank_pages plain_lib self [''chien''] ''chat'' None) = Inr [0]"
proof -
  define st where "st = snd (fit plain_lib self [''chien''])"
  have fit: "fit plain_lib self [''chien''] = ([[''chien'']], st)"
    by (simp add: st_def fit_value)
  have idf: "idf st ''chat'' = Some (ln 4)"
    using assms(1) by (simp add: st_def fit_idf doc_count_def)
  have par: "k1 st = 1.5" "b_len st = 0.75" "delta st = 1" "avg_doc_len st = 1" "doc_lens st = [1]"
    using assms by (simp_all add: st_def fit_state_fields)
  have score: "calculate_page_score st [''chien''] [''chat''] 0 = Inr (ln 4 * 1.2)"
    by (simp add: calculate_page_score_def score_term_def idf par py_div_def get_item_def)
  have scores: "score_pages st [''chat''] [[''chien'']] = Inr [ln 4 * 1.2]"
    by (simp add: score_pages_def score)
  have pos: "0 < ln (4::real)" by simp
  have keep: "keep_above [ln 4 * 1.2] (Max (set [ln 4 * 1.2]) * 0.1) (rev (argsort [ln 4 * 1.2])) = Inr [0]"
    using pos by (simp add: keep_above_def argsort_def get_item_def)
  show ?thesis
    using keep by (simp add: rank_pages_def fit scores Let_def)
qed

lemma second_call_fresh:
  "fst (rank_pages plain_lib default_ranker [''chien''] ''chat'' None) = Inr []"
proof -
  define st where "st = snd (fit plain_lib default_ranker [''chien''])"
  have fit: "fit plain_lib default_ranker [''chien''] = ([[''chien'']], st)"
    by (simp add: st_def fit_value)
  have idf: "idf st ''chat'' = None"
    by (simp add: st_def fit_idf doc_count_def default_ranker_def BM25Ranker_def)
  have par: "avg_doc_len st = 1" "doc_lens st = [1]"
    by (simp_all add: st_def fit_state_fields)
  have score: "calculate_page_score st [''chien''] [''chat''] 0 = Inr 0"
    by (simp add: calculate_page_score_def score_term_def idf par py_div_def get_item_def)
  have scores: "score_pages st [''chat''] [[''chien'']] = Inr [0]"
    by (simp add: score_pages_def score)
  show ?thesis
    by (simp add: rank_pages_def fit scores Let_def keep_above_def argsort_def get_item_def)
qed

lemma first_call_state:
  "corpus_terms (snd (rank_pages plain_lib default_ranker [''chat''] ''chat'' None)) = {''chat''}"
  "k1 (snd (rank_pages plain_lib default_ranker [''chat''] ''chat'' None)) = 1.5"
  "b_len (snd (rank_pages plain_lib default_ranker [''chat''] ''chat'' None)) = 0.75"
  "delta (snd (rank_pages plain_lib default_ranker [''chat''] ''chat'' None)) = 1"
  by (simp_all add: rank_pages_state fit_state_fields default_ranker_def BM25Ranker_def)

text \<open>
  Claim C2 fails. \<^verbatim>\<open>fit\<close> resets \<^verbatim>\<open>doc_lens\<close>, \<^verbatim>\<open>doc_freqs\<close>, \<^verbatim>\<open>total_docs\<close> and
  \<^verbatim>\<open>avg_doc_len\<close>, but neither \<^verbatim>\<open>corpus_terms\<close> nor \<^verbatim>\<open>idf\<close>: a term of an earlier
  corpus stays in the table with document frequency 0. After a call on the corpus
  \<open>[chat]\<close>, the query \<open>chat\<close> on the corpus \<open>[chien]\<close> returns \<open>[0]\<close>; on a new
  instance it returns \<open>[]\<close>.
\<close>

theorem rank_pages_depends_on_earlier_call:
  "fst (rank_pages plain_lib
          (snd (rank_pages plain_lib default_ranker [''chat''] ''chat'' None))
          [''chien''] ''chat'' None) = Inr [0] \<and>
   fst (rank_pages plain_lib default_ranker [''chien''] ''chat'' None) = Inr []"
  using second_call_stale[OF first_call_state] second_call_fresh
  by simp

lemma rank_two_pages:
  "fst (rank_pages plain_lib default_ranker [''chien'', ''chat''] ''chat'' (Some 5)) = Inr [1, 0]"
proof -
  define st where "st = snd (fit plain_lib default_ranker [''chien'', ''chat''])"
  have fit: "fit plain_lib default_ranker [''chien'', ''chat''] = ([[''chien''], [''chat'']], st)"
    by (simp add: st_def fit_value)
  have idf: "idf st ''chat'' = Some (ln 2)"
    by (simp add: st_def fit_idf doc_count_def default_ranker_def BM25Ranker_def)
  have par: "k1 st = 1.5" "b_len st = 0.75" "delta st = 1" "avg_doc_len st = 1"
      "doc_lens st = [1, 1]"
    by (simp_all add: st_def fit_state_fields default_ranker_def BM25Ranker_def)
  have score0: "calculate_page_score st [''chien''] [''chat''] 0 = Inr (ln 2 * 1.2)"
    by (simp add: calculate_page_score_def score_term_def idf par py_div_def get_item_def)
  have score1: "calculate_page_score st [''chat''] [''chat''] (Suc 0) = Inr (ln 2 * 2.4)"
    by (simp add: calculate_page_score_def score_term_def idf par py_div_def get_item_def)
  have scores: "score_pages st (expand_query plain_lib (preprocess_text plain_lib ''chat'' True))
      [[''chien''], [''chat'']] = Inr [ln 2 * 1.2, ln 2 * 2.4]"
    by (simp add: score_pages_def score0 score1)
  have pos: "0 < ln (2::real)" by simp
  have keep: "keep_above [ln 2 * 1.2, ln 2 * 2.4] (Max (set [ln 2 * 1.2, ln 2 * 2.4]) * 0.1)
      (rev (argsort [ln 2 * 1.2, ln 2 * 2.4])) = Inr [1, 0]"
    using pos by (simp add: keep_above_def get_item_def argsort_def upt_rec max_def)
  show ?thesis
    using rank_pages_value[OF _ fit scores _ keep, of "Some 5"] by simp
qed

text \<open>
  Claim C3 as stated fails for \<^verbatim>\<open>rank_pages\<close>, which has no short cut: with two pages
  and \<^verbatim>\<open>top_k = 5\<close> it scores and sorts, and returns page 1 before page 0.
\<close>

theorem rank_pages_no_bypass_counterexample:
  "int (length [''chien'', ''chat'']) \<le> 5 \<and>
   fst (rank_pages plain_lib default_ranker [''chien'', ''chat''] ''chat'' (Some 5)) = Inr [1, 0] \<and>
   [1, 0] \<noteq> [0..<length [''chien'', ''chat'']]"
  using rank_two_pages by (simp add: upt_rec)

text \<open>
  Claim C3, amended. The short cut is in the caller: the page selection of
  \<^verbatim>\<open>VeritasCrewBuilder.build\<close> returns \<^verbatim>\<open>list(range(len(pages)))\<close> when
  \<^verbatim>\<open>len(pages) <= BM25_TOP_K\<close>, for every query, and leaves the ranker as it was.
\<close>

theorem top_pages_indices_bypass:
  "int (length pages) \<le> bm25_top_k \<Longrightarrow>
   top_pages_indices lib self pages search_query bm25_top_k = (Inr [0..<length pages], self)"
  by (simp add: top_pages_indices_def)

theorem top_pages_indices_bypass_witness:
  "int (length [''chien'', ''chat'']) \<le> 5 \<and>
   top_pages_indices plain_lib default_ranker [''chien'', ''chat''] ''chat'' 5 =
     (Inr [0, 1], default_ranker)"
  using top_pages_indices_bypass[of "[''chien'', ''chat'']" 5 plain_lib default_ranker "''chat''"]
  by (simp add: upt_rec)

text \<open>
  Claim C4 fails on a corpus without terms, by the defect of claim C1: for the one-page
  corpus \<open>[a]\<close>, whose only token is dropped for its length, \<^verbatim>\<open>rank_pages\<close> raises
  instead of returning the empty list. On every other corpus the claim holds (lemmas
  \<open>rank_pages_result\<close> and \<open>rank_pages_empty_corpus\<close>).
\<close>

theorem rank_pages_single_letter_raises:
  "fst (rank_pages plain_lib default_ranker [''a''] ''chat'' None) = Inl ZeroDivisionError"
  using rank_pages_raises[of "[''a'']" plain_lib default_ranker "''chat''" None] by simp

section \<open>Monotonicity of the page score\<close>

lemma domain_terms_nonneg: "map_of domain_terms t = Some w \<Longrightarrow> 0 \<le> w"
proof -
  assume "map_of domain_terms t = Some w"
  then have "(t, w) \<in> set domain_terms" by (rule map_of_SomeD)
  then have "w \<in> snd ` set domain_terms" by force
  then show ?thesis by (auto simp: domain_terms_def)
qed

lemma doc_count_le: "doc_count lib pages t \<le> length pages"
  by (simp add: doc_count_def)

lemma fit_idf_arg_ge_one: "1 \<le> idf_arg (snd (fit lib self pages)) term"
proof -
  let ?n = "real (length pages)" and ?d = "real (doc_count lib pages term)"
  have "?d \<le> ?n" using doc_count_le[of lib pages "term"] by simp
  then have "0 \<le> (?n - ?d + 0.5) / (?d + 0.5)" by simp
  moreover have "0 \<le> (?n - 0 + 0.5) / (0 + 0.5)" by simp
  ultimately show ?thesis
    by (simp add: idf_arg_def fit_state_fields Let_def)
qed

lemma fit_idf_nonneg:
  assumes "\<forall>t v. idf self t = Some v \<longrightarrow> 0 \<le> v"
  shows "\<forall>t v. idf (snd (fit lib self pages)) t = Some v \<longrightarrow> 0 \<le> v"
proof (intro allI impI)
  fix t v
  assume v: "idf (snd (fit lib self pages)) t = Some v"
  let ?n = "real (length pages)" and ?d = "real (doc_count lib pages t)"
  let ?w = "case map_of domain_terms t of None \<Rightarrow> 1 | Some w \<Rightarrow> w"
  have "?d \<le> ?n" using doc_count_le[of lib pages t] by simp
  then have "0 \<le> (?n - ?d + 0.5) / (?d + 0.5)" by simp
  then have ln: "0 \<le> ln ((?n - ?d + 0.5) / (?d + 0.5) + 1)" by simp
  have w: "0 \<le> ?w" using domain_terms_nonneg[of t] by (simp split: option.splits)
  show "0 \<le> v"
  proof (cases "t \<in> corpus_terms self \<or> doc_count lib pages t \<noteq> 0")
    case True
    then have "v = ln ((?n - ?d + 0.5) / (?d + 0.5) + 1) * ?w"
      using v by (simp add: fit_idf)
    then show ?thesis using ln w by simp
  next
    case False
    then have "idf self t = Some v" using v by (simp add: fit_idf)
    then show ?thesis using assms by blast
  qed
qed

lemma fit_avg_nonneg: "0 \<le> avg_doc_len (snd (fit lib self pages))"
  by (simp add: fit_state_fields)

lemma reachable_invariant:
  "reachable lib self \<Longrightarrow>
     (\<forall>t v. idf self t = Some v \<longrightarrow> 0 \<le> v) \<and> 0 \<le> avg_doc_len self"
proof (induction rule: reachable.induct)
  case (constructed k1_arg b_arg delta_arg)
  show ?case by (simp add: BM25Ranker_def)
next
  case (fitted self pages)
  then show ?case using fit_idf_nonneg[of self lib pages] fit_avg_nonneg by blast
next
  case (ranked self pages query top_k)
  then show ?case
    using fit_idf_nonneg[of self lib pages] fit_avg_nonneg[of lib self pages]
    by (auto simp: rank_pages_state)
qed

lemma saturation_mono:
  fixes a c K :: real
  assumes "0 \<le> a" "a \<le> c" "0 < K"
  shows "a / (a + K) \<le> c / (c + K)"
proof -
  have "a * (c + K) \<le> c * (a + K)" using assms by (simp add: algebra_simps)
  then show ?thesis using assms by (simp add: field_simps)
qed

lemma score_term_mono:
  assumes "0 < k1 self" "0 \<le> b_len self" "b_len self < 1" "0 \<le> nl"
    and "\<forall>v. idf self t = Some v \<longrightarrow> 0 \<le> v"
    and "count_list p t \<le> count_list p' t" and "s \<le> s'"
  shows "\<exists>r r'. score_term self p q nl s t = Inr r \<and> score_term self p' q nl s' t = Inr r'
           \<and> r \<le> r'"
proof (cases "idf self t")
  case None
  then show ?thesis using assms(7) by (simp add: score_term_def)
next
  case (Some v)
  define K where "K = k1 self * (1 - b_len self + b_len self * nl)"
  define a where "a = real (count_list p t)"
  define c where "c = real (count_list p' t)"
  have "0 \<le> b_len self * nl" using assms(2,4) by simp
  then have "0 < 1 - b_len self + b_len self * nl" using assms(3) by linarith
  then have K: "0 < K" using assms(1) by (simp add: K_def)
  have ac: "0 \<le> a" "a \<le> c" using assms(6) by (simp_all add: a_def c_def)
  have v: "0 \<le> v" using assms(5) Some by blast
  have "a / (a + K) \<le> c / (c + K)" using saturation_mono[OF ac K] .
  then have "a / (a + K) * (k1 self + 1) \<le> c / (c + K) * (k1 self + 1)"
    using assms(1) by (intro mult_right_mono) simp_all
  then have q: "a * (k1 self + 1) / (a + K) \<le> c * (k1 self + 1) / (c + K)" by simp
  then have base: "v * (a * (k1 self + 1) / (a + K) + delta self)
      \<le> v * (c * (k1 self + 1) / (c + K) + delta self)"
    using v by (simp add: mult_left_mono)
  then have boosted: "v * (a * (k1 self + 1) / (a + K) + delta self) * 1.2
      \<le> v * (c * (k1 self + 1) / (c + K) + delta self) * 1.2"
    by simp
  have nz: "a + K \<noteq> 0" "c + K \<noteq> 0" using ac K by simp_all
  show ?thesis
    using Some nz base boosted assms(7)
    by (simp add: score_term_def py_div_def Let_def K_def[symmetric] a_def[symmetric]
          c_def[symmetric] add_mono)
qed

lemma score_loop_mono:
  assumes "0 < k1 self" "0 \<le> b_len self" "b_len self < 1" "0 \<le> nl"
    and "\<forall>t v. idf self t = Some v \<longrightarrow> 0 \<le> v"
    and "\<forall>t. count_list p t \<le> count_list p' t"
  shows "s \<le> s' \<Longrightarrow>
    \<exists>r r'. for_loop ts (score_term self p q nl) s = Inr r \<and>
            for_loop ts (score_term self p' q nl) s' = Inr r' \<and> r \<le> r'"
proof (induction ts arbitrary: s s')
  case Nil
  then show ?case by simp
next
  case (Cons t ts)
  obtain r r' where r: "score_term self p q nl s t = Inr r"
      "score_term self p' q nl s' t = Inr r'" "r \<le> r'"
    using score_term_mono[OF assms(1-4), of t p p' s s' q] assms(5,6) Cons.prems by blast
  show ?case using Cons.IH[OF r(3)] r(1,2) by simp
qed

text \<open>
  Claim C9. For an instance in a state that the constructor, \<^verbatim>\<open>fit\<close> and \<^verbatim>\<open>rank_pages\<close>
  can produce, with \<open>0 < k1\<close> and \<open>0 \<le> b < 1\<close> (the defaults are 1.5 and 0.75) and a
  non-zero average length: with the state and the page index fixed (so the IDF table,
  the page's recorded length and the average length are fixed), a page whose frequency
  of every term is at least that of another page scores at least as much, and both
  scores are computed without error. Raising the frequency of one query term and
  leaving the others is the special case of the claim.
\<close>

theorem page_score_monotone:
  assumes "reachable lib self" and "0 < k1 self" and "0 \<le> b_len self" and "b_len self < 1"
    and "avg_doc_len self \<noteq> 0" and "page_index < length (doc_lens self)"
    and "\<forall>t. count_list page_terms t \<le> count_list page_terms' t"
  shows "\<exists>s s'. calculate_page_score self page_terms query_terms page_index = Inr s \<and>
           calculate_page_score self page_terms' query_terms page_index = Inr s' \<and> s \<le> s'"
proof -
  have inv: "\<forall>t v. idf self t = Some v \<longrightarrow> 0 \<le> v" "0 \<le> avg_doc_len self"
    using reachable_invariant[OF assms(1)] by blast+
  define nl where "nl = real (doc_lens self ! page_index) / avg_doc_len self"
  have nl: "0 \<le> nl" using inv(2) by (simp add: nl_def)
  have "\<exists>r r'. for_loop query_terms (score_term self page_terms query_terms nl) 0 = Inr r \<and>
            for_loop query_terms (score_term self page_terms' query_terms nl) 0 = Inr r' \<and> r \<le> r'"
    using score_loop_mono[OF assms(2-4) nl inv(1) assms(7), of 0 0] by simp
  then show ?thesis
    using assms(5,6) by (simp add: calculate_page_score_def py_div_def nl_def)
qed

theorem page_score_monotone_witness:
  "reachable plain_lib (snd (fit plain_lib default_ranker [''chien'', ''chat''])) \<and>
   0 < k1 (snd (fit plain_lib default_ranker [''chien'', ''chat''])) \<and>
   0 \<le> b_len (snd (fit plain_lib default_ranker [''chien'', ''chat''])) \<and>
   b_len (snd (fit plain_lib default_ranker [''chien'', ''chat''])) < 1 \<and>
   avg_doc_len (snd (fit plain_lib default_ranker [''chien'', ''chat''])) \<noteq> 0 \<and>
   0 < length (doc_lens (snd (fit plain_lib default_ranker [''chien'', ''chat'']))) \<and>
   (\<exists>s s'. calculate_page_score (snd (fit plain_lib default_ranker [''chien'', ''chat'']))
               [''chien''] [''chat''] 0 = Inr s \<and>
            calculate_page_score (snd (fit plain_lib default_ranker [''chien'', ''chat'']))
               [''chien'', ''chat''] [''chat''] 0 = Inr s' \<and> s \<le> s')"
proof -
  let ?st = "snd (fit plain_lib default_ranker [''chien'', ''chat''])"
  have r: "reachable plain_lib ?st"
    unfolding default_ranker_def by (rule reachable.fitted[OF reachable.constructed])
  have par: "0 < k1 ?st" "0 \<le> b_len ?st" "b_len ?st < 1" "avg_doc_len ?st \<noteq> 0"
      "0 < length (doc_lens ?st)"
    by (simp_all add: fit_state_fields default_ranker_def BM25Ranker_def)
  have cnt: "\<forall>t. count_list [''chien''] t \<le> count_list [''chien'', ''chat''] t" by simp
  show ?thesis
    using page_score_monotone[OF r par cnt, of "[''chat'']"] r par by blast
qed

end
